theory Spec2Isabelle
  imports Main "HOL-Library.Word"
begin

unbundle bit_operations_syntax

section \<open>The field dependency and notification engine of SoField.cpp\<close>

text \<open>
  A shallow embedding of \<^verbatim>\<open>src/fields/SoField.cpp\<close>. Pointers are indices into
  the object tables of a world; a null pointer is \<open>None\<close>. Every assertion, every
  dereference of a null or dangling pointer and every exhausted recursion budget is a
  value of the type \<open>error\<close>.
\<close>

subsection \<open>Pointers, types and errors\<close>

type_synonym field_ref = nat
type_synonym container_ref = nat
type_synonym output_ref = nat
type_synonym SoType = nat

definition badType :: SoType where
  "badType = 0"

datatype error =
    OutOfFuel
  | InvalidPointer
  | AssertionFailed string

datatype NotRecType = CONTAINER | PARENT | SENSOR | FIELD | ENGINE

subsection \<open>Status flags\<close>

type_synonym statusword = "32 word"

definition FLAG_TYPEMASK :: statusword where "FLAG_TYPEMASK = 0x0007"
definition FLAG_ISDEFAULT :: statusword where "FLAG_ISDEFAULT = 0x0008"
definition FLAG_IGNORE :: statusword where "FLAG_IGNORE = 0x0010"
definition FLAG_EXTSTORAGE :: statusword where "FLAG_EXTSTORAGE = 0x0020"
definition FLAG_ENABLECONNECTS :: statusword where "FLAG_ENABLECONNECTS = 0x0040"
definition FLAG_NEEDEVALUATION :: statusword where "FLAG_NEEDEVALUATION = 0x0080"
definition FLAG_READONLY :: statusword where "FLAG_READONLY = 0x0100"
definition FLAG_DONOTIFY :: statusword where "FLAG_DONOTIFY = 0x0200"
definition FLAG_ISDESTRUCTING :: statusword where "FLAG_ISDESTRUCTING = 0x0400"
definition FLAG_ISEVALUATING :: statusword where "FLAG_ISEVALUATING = 0x0800"
definition FLAG_ISNOTIFIED :: statusword where "FLAG_ISNOTIFIED = 0x1000"

subsection \<open>Extended connection storage\<close>

text \<open>
  The key of the converter dictionary is the address of a master, which is either a
  field or an engine output.
\<close>

datatype endpoint = FieldItem field_ref | OutputItem output_ref

record SoConnectStorage =
  storage_container :: "container_ref option"
  fieldtype :: SoType
  masterfields :: "field_ref list"
  masterengineouts :: "output_ref list"
  slaves :: "field_ref list"
  auditors :: "(nat \<times> NotRecType) list"
  maptoconverter :: "(endpoint \<times> container_ref) list"

definition new_SoConnectStorage :: "container_ref option \<Rightarrow> SoType \<Rightarrow> SoConnectStorage" where
  "new_SoConnectStorage c t =
     \<lparr>storage_container = c, fieldtype = t, masterfields = [], masterengineouts = [],
      slaves = [], auditors = [], maptoconverter = []\<rparr>"

definition addConverter :: "endpoint \<Rightarrow> container_ref \<Rightarrow> SoConnectStorage \<Rightarrow> SoConnectStorage" where
  "addConverter item converter s =
     s\<lparr>maptoconverter := (item, converter) # filter (\<lambda>kv. fst kv \<noteq> item) (maptoconverter s)\<rparr>"

definition findConverter :: "SoConnectStorage \<Rightarrow> endpoint \<Rightarrow> container_ref option" where
  "findConverter s item = map_of (maptoconverter s) item"

definition removeConverter :: "endpoint \<Rightarrow> SoConnectStorage \<Rightarrow> error + SoConnectStorage" where
  "removeConverter item s =
     (if map_of (maptoconverter s) item = None then Inl (AssertionFailed ''ok'')
      else Inr (s\<lparr>maptoconverter := filter (\<lambda>kv. fst kv \<noteq> item) (maptoconverter s)\<rparr>))"

text \<open>
  Modelled from the spec: \<open>removeItem\<close> of the pointer lists (SbPList) is not in the
  analysed source. It removes the first occurrence of the item; removing an item that is
  not in the list is the invariant violation "disconnecting a never-connected pair", an
  assertion failure.
\<close>

definition removeItem :: "nat \<Rightarrow> nat list \<Rightarrow> error + nat list" where
  "removeItem item xs =
     (if item \<in> set xs then Inr (remove1 item xs) else Inl (AssertionFailed ''idx != -1''))"

subsection \<open>Fields\<close>

text \<open>
  The pointer member of a field is multiplexed: while \<open>FLAG_EXTSTORAGE\<close> is clear it
  is the owning container (\<open>container\<close>), and once the flag is set it is the extended
  storage (\<open>storage\<close>). The record keeps both readings and the flag tells which one is
  live, as in the source. \<open>typeId\<close> is the result of the virtual \<open>getTypeId()\<close>, and
  \<open>val\<close> stands for the value kept by the concrete field class.
\<close>

record SoField =
  statusbits :: statusword
  container :: "container_ref option"
  storage :: SoConnectStorage
  typeId :: SoType
  val :: int

definition clearStatusBits :: "statusword \<Rightarrow> SoField \<Rightarrow> SoField" where
  "clearStatusBits bits f = f\<lparr>statusbits := statusbits f AND NOT bits\<rparr>"

definition setStatusBits :: "statusword \<Rightarrow> SoField \<Rightarrow> SoField" where
  "setStatusBits bits f = f\<lparr>statusbits := statusbits f OR bits\<rparr>"

definition getStatus :: "SoField \<Rightarrow> statusword \<Rightarrow> bool" where
  "getStatus f bits = (statusbits f AND bits \<noteq> 0)"

definition changeStatusBits :: "statusword \<Rightarrow> bool \<Rightarrow> SoField \<Rightarrow> bool \<times> SoField" where
  "changeStatusBits bits onoff f =
     (let oldval = statusbits f;
          newval = (if onoff then oldval OR bits else oldval AND NOT bits)
      in if oldval \<noteq> newval then (True, f\<lparr>statusbits := newval\<rparr>) else (False, f))"

definition hasExtendedStorage :: "SoField \<Rightarrow> bool" where
  "hasExtendedStorage f = getStatus f FLAG_EXTSTORAGE"

text \<open>The base constructor \<open>SoField::SoField\<close>, for a field of type \<open>t\<close> with value \<open>v\<close>.\<close>

definition new_SoField :: "SoType \<Rightarrow> int \<Rightarrow> SoField" where
  "new_SoField t v =
     setStatusBits (FLAG_DONOTIFY OR FLAG_ISDEFAULT OR FLAG_ENABLECONNECTS)
       \<lparr>statusbits = 0, container = None, storage = new_SoConnectStorage None t,
        typeId = t, val = v\<rparr>"

definition isIgnored :: "SoField \<Rightarrow> bool" where
  "isIgnored f = getStatus f FLAG_IGNORE"

definition setDefault :: "bool \<Rightarrow> SoField \<Rightarrow> SoField" where
  "setDefault def f = snd (changeStatusBits FLAG_ISDEFAULT def f)"

definition isDefault :: "SoField \<Rightarrow> bool" where
  "isDefault f = getStatus f FLAG_ISDEFAULT"

definition getDirty :: "SoField \<Rightarrow> bool" where
  "getDirty f = getStatus f FLAG_NEEDEVALUATION"

definition setDirty :: "bool \<Rightarrow> SoField \<Rightarrow> SoField" where
  "setDirty dirty f = snd (changeStatusBits FLAG_NEEDEVALUATION dirty f)"

definition enableConnection :: "bool \<Rightarrow> SoField \<Rightarrow> SoField" where
  "enableConnection flag f =
     (let oldval = getStatus f FLAG_ENABLECONNECTS;
          f1 = snd (changeStatusBits FLAG_ENABLECONNECTS flag f)
      in if \<not> oldval \<and> flag then setDirty True f1 else f1)"

definition isConnectionEnabled :: "SoField \<Rightarrow> bool" where
  "isConnectionEnabled f = getStatus f FLAG_ENABLECONNECTS"

definition enableNotify :: "bool \<Rightarrow> SoField \<Rightarrow> bool \<times> SoField" where
  "enableNotify on f =
     (let old = getStatus f FLAG_DONOTIFY
      in (old, snd (changeStatusBits FLAG_DONOTIFY on f)))"

definition isNotifyEnabled :: "SoField \<Rightarrow> bool" where
  "isNotifyEnabled f = getStatus f FLAG_DONOTIFY"

definition isReadOnly :: "SoField \<Rightarrow> bool" where
  "isReadOnly f = getStatus f FLAG_READONLY"

definition isDestructing :: "SoField \<Rightarrow> bool" where
  "isDestructing f = getStatus f FLAG_ISDESTRUCTING"

definition getFieldType :: "SoField \<Rightarrow> statusword" where
  "getFieldType f = statusbits f AND FLAG_TYPEMASK"

definition isConnectedFromField :: "SoField \<Rightarrow> bool" where
  "isConnectedFromField f =
     (hasExtendedStorage f \<and> length (masterfields (storage f)) > 0)"

definition isConnectedFromEngine :: "SoField \<Rightarrow> bool" where
  "isConnectedFromEngine f =
     (hasExtendedStorage f \<and> length (masterengineouts (storage f)) > 0)"

definition isConnected :: "SoField \<Rightarrow> bool" where
  "isConnected f = (isConnectedFromField f \<or> isConnectedFromEngine f)"

text \<open>
  The macro \<open>SOFIELD_GETCONNECTED\<close>: \<open>None\<close> is the return value \<open>FALSE\<close>, and
  \<open>Some m\<close> is \<open>TRUE\<close> with the reference parameter set to \<open>m\<close>.
\<close>

definition SOFIELD_GETCONNECTED :: "SoField \<Rightarrow> nat list \<Rightarrow> nat option" where
  "SOFIELD_GETCONNECTED f masterlist =
     (if \<not> hasExtendedStorage f then None
      else let nrmasters = length masterlist
           in if nrmasters < 1 then None else Some (masterlist ! (nrmasters - 1)))"

definition getConnectedField :: "SoField \<Rightarrow> field_ref option" where
  "getConnectedField f = SOFIELD_GETCONNECTED f (masterfields (storage f))"

definition getConnectedEngine :: "SoField \<Rightarrow> output_ref option" where
  "getConnectedEngine f = SOFIELD_GETCONNECTED f (masterengineouts (storage f))"


text \<open>
  \<open>getConnections\<close> replaces the caller's list; without extended storage it returns 0
  and leaves the list as it was. \<open>getForwardConnections\<close> appends to the caller's list.
\<close>

definition getConnections :: "SoField \<Rightarrow> field_ref list \<Rightarrow> nat \<times> field_ref list" where
  "getConnections f masterlist =
     (if \<not> hasExtendedStorage f then (0, masterlist)
      else (length (masterfields (storage f)), masterfields (storage f)))"

definition getForwardConnections :: "SoField \<Rightarrow> field_ref list \<Rightarrow> nat \<times> field_ref list" where
  "getForwardConnections f slavelist =
     (if \<not> hasExtendedStorage f then (0, slavelist)
      else (length (slaves (storage f)), slavelist @ slaves (storage f)))"

definition setContainer :: "container_ref option \<Rightarrow> SoField \<Rightarrow> SoField" where
  "setContainer cont f =
     setDefault True
       (if \<not> hasExtendedStorage f then f\<lparr>container := cont\<rparr>
        else f\<lparr>storage := (storage f)\<lparr>storage_container := cont\<rparr>\<rparr>)"

definition getContainer :: "SoField \<Rightarrow> container_ref option" where
  "getContainer f =
     (if \<not> hasExtendedStorage f then container f else storage_container (storage f))"

text \<open>
  The test \<open>if (this->container)\<close> of \<open>touch\<close> and \<open>valueChanged\<close> reads the
  multiplexed pointer member itself. With extended storage that member holds the address
  of the storage block, which is never null.
\<close>

definition container_member_set :: "SoField \<Rightarrow> bool" where
  "container_member_set f = (if hasExtendedStorage f then True else container f \<noteq> None)"

definition extendStorageIfNecessary :: "SoField \<Rightarrow> SoField" where
  "extendStorageIfNecessary f =
     (if \<not> hasExtendedStorage f
      then setStatusBits FLAG_EXTSTORAGE
             (f\<lparr>storage := new_SoConnectStorage (container f) (typeId f)\<rparr>)
      else f)"

text \<open>\<open>connectionStatusChanged\<close> is empty in the base class.\<close>

definition connectionStatusChanged :: "int \<Rightarrow> SoField \<Rightarrow> SoField" where
  "connectionStatusChanged numconnections f = f"

definition addAuditor :: "nat \<Rightarrow> NotRecType \<Rightarrow> SoField \<Rightarrow> SoField" where
  "addAuditor a t f =
     (let f1 = extendStorageIfNecessary f;
          f2 = f1\<lparr>storage := (storage f1)\<lparr>auditors := auditors (storage f1) @ [(a, t)]\<rparr>\<rparr>
      in connectionStatusChanged 1 f2)"

text \<open>
  Modelled from the spec: \<open>SoAuditorList::remove\<close> is not in the analysed source. It
  removes the first entry for the auditor; an entry that is absent is an assertion
  failure.
\<close>

definition removeAuditor :: "nat \<Rightarrow> NotRecType \<Rightarrow> SoField \<Rightarrow> error + SoField" where
  "removeAuditor a t f =
     (if \<not> hasExtendedStorage f then Inl (AssertionFailed ''this->hasExtendedStorage()'')
      else if (a, t) \<notin> set (auditors (storage f)) then Inl (AssertionFailed ''index >= 0'')
      else Inr (connectionStatusChanged (- 1)
             (f\<lparr>storage := (storage f)\<lparr>auditors := remove1 (a, t) (auditors (storage f))\<rparr>\<rparr>)))"

definition shouldWrite :: "SoField \<Rightarrow> bool" where
  "shouldWrite f =
     (if \<not> isDefault f then True
      else if isIgnored f then True
      else if isConnected f then True
      else False)"

text \<open>
  Modelled from the spec: \<open>copyFrom\<close> is implemented by the concrete field classes,
  which are not in the analysed source. It copies the value of the other field.
\<close>

definition copyFrom :: "SoField \<Rightarrow> SoField \<Rightarrow> SoField" where
  "copyFrom master f = f\<lparr>val := val master\<rparr>"

subsection \<open>The world: object tables and collaborators\<close>

text \<open>
  Modelled from the spec: containers, engine outputs, converter adapters and the type
  registry are collaborators whose code is not in the analysed source. A container is
  known by whether it is an engine or a node engine, by its converter part (the input
  field and the output port of a converter adapter, \<open>None\<close> for any other container)
  and by its named fields and outputs. An output port has a connection type, an owning
  container, an enable flag and the list of fields connected from it.
\<close>

record SoFieldContainer =
  isEngine :: bool
  isNodeEngine :: bool
  converter :: "(field_ref \<times> output_ref) option"
  fieldnames :: "(string \<times> field_ref) list"
  outputnames :: "(string \<times> output_ref) list"

record SoEngineOutput =
  connectionType :: SoType
  output_container :: "container_ref option"
  enabled :: bool
  isNodeEngineOutput :: bool
  connections :: "field_ref list"

text \<open>
  Calls that leave the analysed source are recorded in the order they are made.
  \<open>MarkedDirty\<close> is a ghost event: \<open>notify\<close> records it when it executes
  \<open>setDirty(TRUE)\<close> on a field that is not the origin of the pass.
\<close>

datatype event =
    ContainerNotify container_ref
  | AuditorNotify nat NotRecType
  | EvaluateWrapper container_ref
  | Ref container_ref
  | Unref container_ref
  | DBStartNotify
  | DBEndNotify
  | MarkedDirty field_ref

record world =
  all_fields :: "SoField list"
  all_outputs :: "SoEngineOutput list"
  all_containers :: "SoFieldContainer list"
  registry :: "((SoType \<times> SoType) \<times> SoType) list"
  calls :: "event list"

definition field_at :: "world \<Rightarrow> field_ref \<Rightarrow> error + SoField" where
  "field_at w r = (if r < length (all_fields w) then Inr (all_fields w ! r) else Inl InvalidPointer)"

definition output_at :: "world \<Rightarrow> output_ref \<Rightarrow> error + SoEngineOutput" where
  "output_at w r = (if r < length (all_outputs w) then Inr (all_outputs w ! r) else Inl InvalidPointer)"

definition container_at :: "world \<Rightarrow> container_ref option \<Rightarrow> error + SoFieldContainer" where
  "container_at w r =
     (case r of
        None \<Rightarrow> Inl InvalidPointer
      | Some c \<Rightarrow> if c < length (all_containers w) then Inr (all_containers w ! c) else Inl InvalidPointer)"

definition put_field :: "field_ref \<Rightarrow> SoField \<Rightarrow> world \<Rightarrow> world" where
  "put_field r f w = w\<lparr>all_fields := (all_fields w)[r := f]\<rparr>"

definition upd_field :: "field_ref \<Rightarrow> (SoField \<Rightarrow> SoField) \<Rightarrow> world \<Rightarrow> world" where
  "upd_field r g w = w\<lparr>all_fields := (all_fields w)[r := g (all_fields w ! r)]\<rparr>"

definition put_output :: "output_ref \<Rightarrow> SoEngineOutput \<Rightarrow> world \<Rightarrow> world" where
  "put_output r out w = w\<lparr>all_outputs := (all_outputs w)[r := out]\<rparr>"

definition record_event :: "event \<Rightarrow> world \<Rightarrow> world" where
  "record_event e w = w\<lparr>calls := calls w @ [e]\<rparr>"

text \<open>
  \<open>isDerivedFrom(SoFieldConverter::getClassTypeId())\<close> on the type of a container.
\<close>

definition isConverter :: "SoFieldContainer \<Rightarrow> bool" where
  "isConverter c = (converter c \<noteq> None)"

text \<open>\<open>SoDB::getConverter\<close>: the not-found sentinel is \<open>badType\<close>.\<close>

definition getConverter :: "world \<Rightarrow> SoType \<Rightarrow> SoType \<Rightarrow> SoType" where
  "getConverter w from_type to_type =
     (case map_of (registry w) (from_type, to_type) of None \<Rightarrow> badType | Some t \<Rightarrow> t)"

subsection \<open>Notification\<close>

text \<open>
  Modelled from the spec: the notification list and \<open>SoAuditorList::notify\<close> are not
  in the analysed source. The list is the ordered trace of the records appended during
  one pass, and \<open>getFirstRec\<close> is null exactly when the trace is empty. The auditor
  list notifies every auditor in insertion order: a field auditor through
  \<open>SoField::notify\<close>, any other auditor through a call that is recorded.
  The first argument of the three functions bounds the depth of the recursion.
\<close>

type_synonym SoNotList = "(NotRecType \<times> container_ref option) list"

text \<open>
  The statement \<open>if (nlist->getFirstRec()) this->setDirty(TRUE)\<close> of \<open>notify\<close>.
\<close>

definition notify_mark :: "field_ref \<Rightarrow> SoNotList \<Rightarrow> world \<Rightarrow> world" where
  "notify_mark this nlist w =
     (if nlist \<noteq> []
      then record_event (MarkedDirty this) (upd_field this (setDirty True) w)
      else w)"

text \<open>
  The statement \<open>if (this->getContainer()) this->getContainer()->notify(nlist)\<close>.
\<close>

definition notify_container :: "container_ref option \<Rightarrow> world \<Rightarrow> world" where
  "notify_container c w =
     (case c of None \<Rightarrow> w | Some c' \<Rightarrow> record_event (ContainerNotify c') w)"

function notify :: "nat \<Rightarrow> field_ref \<Rightarrow> SoNotList \<Rightarrow> world \<Rightarrow> error + (SoNotList \<times> world)"
  and notifyAuditors :: "nat \<Rightarrow> field_ref \<Rightarrow> SoNotList \<Rightarrow> world \<Rightarrow> error + (SoNotList \<times> world)"
  and auditors_notify ::
    "nat \<Rightarrow> (nat \<times> NotRecType) list \<Rightarrow> SoNotList \<Rightarrow> world \<Rightarrow> error + (SoNotList \<times> world)"
where
  "notify 0 this nlist w = Inl OutOfFuel"
| "notify (Suc n) this nlist w =
     (case field_at w this of
        Inl e \<Rightarrow> Inl e
      | Inr f \<Rightarrow>
          if getStatus f FLAG_ISNOTIFIED then Inr (nlist, w)
          else if isNotifyEnabled f then
            (case notifyAuditors n this (nlist @ [(CONTAINER, getContainer f)])
                    (notify_container (getContainer f)
                       (upd_field this (setStatusBits FLAG_ISNOTIFIED)
                          (notify_mark this nlist w))) of
               Inl e \<Rightarrow> Inl e
             | Inr (nlist', w') \<Rightarrow>
                 Inr (nlist', upd_field this (clearStatusBits FLAG_ISNOTIFIED) w'))
          else Inr (nlist, notify_mark this nlist w))"
| "notifyAuditors n this l w =
     (case field_at w this of
        Inl e \<Rightarrow> Inl e
      | Inr f \<Rightarrow>
          if hasExtendedStorage f \<and> length (auditors (storage f)) \<noteq> 0
          then auditors_notify n (auditors (storage f)) l w
          else Inr (l, w))"
| "auditors_notify n [] l w = Inr (l, w)"
| "auditors_notify n ((a, t) # rest) l w =
     (if t = FIELD
      then (case notify n a l w of
              Inl e \<Rightarrow> Inl e
            | Inr (l', w') \<Rightarrow> auditors_notify n rest l' w')
      else auditors_notify n rest l (record_event (AuditorNotify a t) w))"
  by pat_completeness auto
termination
  by (relation "measures
       [\<lambda>x. case x of
              Inl (n, _, _, _) \<Rightarrow> 3 * n
            | Inr (Inl (n, _, _, _)) \<Rightarrow> 3 * n + 2
            | Inr (Inr (n, _, _, _)) \<Rightarrow> 3 * n + 1,
        \<lambda>x. case x of
              Inl _ \<Rightarrow> 0
            | Inr (Inl _) \<Rightarrow> 0
            | Inr (Inr (_, l, _, _)) \<Rightarrow> length l]") auto

definition startNotify :: "nat \<Rightarrow> field_ref \<Rightarrow> world \<Rightarrow> error + world" where
  "startNotify n this w =
     (case notify n this [] (record_event DBStartNotify w) of
        Inl e \<Rightarrow> Inl e
      | Inr (l, w') \<Rightarrow> Inr (record_event DBEndNotify w'))"

definition touch :: "nat \<Rightarrow> field_ref \<Rightarrow> world \<Rightarrow> error + world" where
  "touch n this w =
     (case field_at w this of
        Inl e \<Rightarrow> Inl e
      | Inr f \<Rightarrow> if container_member_set f then startNotify n this w else Inr w)"

definition valueChanged :: "nat \<Rightarrow> field_ref \<Rightarrow> bool \<Rightarrow> world \<Rightarrow> error + world" where
  "valueChanged n this resetdefault w =
     (case field_at w this of
        Inl e \<Rightarrow> Inl e
      | Inr f \<Rightarrow>
          (case changeStatusBits FLAG_READONLY True f of
             (False, _) \<Rightarrow> Inr w
           | (True, f1) \<Rightarrow>
               let f2 = setDirty False f1;
                   f3 = (if resetdefault then setDefault False f2 else f2);
                   w1 = put_field this f3 w
               in (case (if container_member_set f3 then startNotify n this w1 else Inr w1) of
                     Inl e \<Rightarrow> Inl e
                   | Inr w2 \<Rightarrow> Inr (upd_field this (clearStatusBits FLAG_READONLY) w2))))"

definition setIgnored :: "nat \<Rightarrow> field_ref \<Rightarrow> bool \<Rightarrow> world \<Rightarrow> error + world" where
  "setIgnored n this ignore w =
     (case field_at w this of
        Inl e \<Rightarrow> Inl e
      | Inr f \<Rightarrow>
          (case changeStatusBits FLAG_IGNORE ignore f of
             (False, _) \<Rightarrow> Inr w
           | (True, f1) \<Rightarrow> valueChanged n this False (put_field this f1 w)))"

subsection \<open>Evaluation\<close>

text \<open>
  Modelled from the spec: \<open>evaluateWrapper\<close> of a converter or an engine is a call
  into a collaborator; it is recorded.
\<close>

definition evaluateConnection :: "field_ref \<Rightarrow> world \<Rightarrow> error + world" where
  "evaluateConnection this w =
     (case field_at w this of
        Inl e \<Rightarrow> Inl e
      | Inr f \<Rightarrow>
          if isConnectedFromField f then
            (let idx = length (masterfields (storage f)) - 1;
                 master = masterfields (storage f) ! idx
             in case field_at w master of
                  Inl e \<Rightarrow> Inl e
                | Inr m \<Rightarrow>
                    if \<not> isDestructing m \<and> \<not> getStatus m FLAG_ISEVALUATING then
                      (case findConverter (storage f) (FieldItem master) of
                         Some conv \<Rightarrow> Inr (record_event (EvaluateWrapper conv) w)
                       | None \<Rightarrow>
                           (case enableNotify False f of
                              (oldnotify, f1) \<Rightarrow>
                                Inr (put_field this
                                       (snd (enableNotify oldnotify (copyFrom m f1))) w)))
                    else Inr w)
          else if isConnectedFromEngine f then
            (let idx = length (masterengineouts (storage f)) - 1;
                 master = masterengineouts (storage f) ! idx
             in case output_at w master of
                  Inl e \<Rightarrow> Inl e
                | Inr out \<Rightarrow>
                    (case findConverter (storage f) (OutputItem master) of
                       Some conv \<Rightarrow> Inr (record_event (EvaluateWrapper conv) w)
                     | None \<Rightarrow>
                         if isNodeEngineOutput out then
                           (case output_container out of
                              None \<Rightarrow> Inl InvalidPointer
                            | Some c \<Rightarrow> Inr (record_event (EvaluateWrapper c) w))
                         else
                           (case output_container out of
                              None \<Rightarrow> Inl InvalidPointer
                            | Some c \<Rightarrow> Inr (record_event (EvaluateWrapper c) w))))
          else Inl (AssertionFailed ''0''))"

definition evaluate :: "field_ref \<Rightarrow> world \<Rightarrow> error + world" where
  "evaluate this w =
     (case field_at w this of
        Inl e \<Rightarrow> Inl e
      | Inr f \<Rightarrow>
          if getStatus f FLAG_ISDESTRUCTING then Inr w
          else if getDirty f = False then Inr w
          else if isConnected f = False then Inr w
          else if getStatus f FLAG_ISEVALUATING
          then Inl (AssertionFailed ''!this->getStatus(FLAG_ISEVALUATING)'')
          else
            (case evaluateConnection this
                    (upd_field this (setStatusBits FLAG_ISEVALUATING) w) of
               Inl e \<Rightarrow> Inl e
             | Inr w' \<Rightarrow>
                 Inr (upd_field this (setDirty False)
                        (upd_field this (clearStatusBits FLAG_ISEVALUATING) w'))))"

subsection \<open>Disconnecting\<close>

text \<open>
  \<open>with_storage\<close> is an access through \<open>this->storage\<close>: without extended
  storage the pointer member holds a container, not a storage block.
\<close>

definition with_storage ::
  "field_ref \<Rightarrow> (SoConnectStorage \<Rightarrow> error + SoConnectStorage) \<Rightarrow> world \<Rightarrow> error + world" where
  "with_storage r g w =
     (case field_at w r of
        Inl e \<Rightarrow> Inl e
      | Inr f \<Rightarrow>
          if \<not> hasExtendedStorage f then Inl InvalidPointer
          else (case g (storage f) of
                  Inl e \<Rightarrow> Inl e
                | Inr s \<Rightarrow> Inr (put_field r (f\<lparr>storage := s\<rparr>) w)))"

definition remove_slave :: "field_ref \<Rightarrow> SoConnectStorage \<Rightarrow> error + SoConnectStorage" where
  "remove_slave item s =
     (case removeItem item (slaves s) of Inl e \<Rightarrow> Inl e | Inr xs \<Rightarrow> Inr (s\<lparr>slaves := xs\<rparr>))"

definition remove_masterfield :: "field_ref \<Rightarrow> SoConnectStorage \<Rightarrow> error + SoConnectStorage" where
  "remove_masterfield item s =
     (case removeItem item (masterfields s) of
        Inl e \<Rightarrow> Inl e
      | Inr xs \<Rightarrow> Inr (s\<lparr>masterfields := xs\<rparr>))"

definition remove_masterengineout :: "output_ref \<Rightarrow> SoConnectStorage \<Rightarrow> error + SoConnectStorage" where
  "remove_masterengineout item s =
     (case removeItem item (masterengineouts s) of
        Inl e \<Rightarrow> Inl e
      | Inr xs \<Rightarrow> Inr (s\<lparr>masterengineouts := xs\<rparr>))"

text \<open>
  Modelled from the spec: \<open>addConnection\<close> and \<open>removeConnection\<close> of an output
  port are not in the analysed source. They append a field to the connections of the
  port and remove its first occurrence; removing a field that is not connected is an
  assertion failure.
\<close>

definition addConnection :: "output_ref \<Rightarrow> field_ref \<Rightarrow> world \<Rightarrow> error + world" where
  "addConnection out f w =
     (case output_at w out of
        Inl e \<Rightarrow> Inl e
      | Inr p \<Rightarrow> Inr (put_output out (p\<lparr>connections := connections p @ [f]\<rparr>) w))"

definition removeConnection :: "output_ref \<Rightarrow> field_ref \<Rightarrow> world \<Rightarrow> error + world" where
  "removeConnection out f w =
     (case output_at w out of
        Inl e \<Rightarrow> Inl e
      | Inr p \<Rightarrow>
          (case removeItem f (connections p) of
             Inl e \<Rightarrow> Inl e
           | Inr xs \<Rightarrow> Inr (put_output out (p\<lparr>connections := xs\<rparr>) w)))"

text \<open>
  A converter pointer taken from the dictionary: \<open>getInput\<close> and \<open>getOutput\<close> are
  called on it, so it has to be a converter.
\<close>

definition converter_at :: "world \<Rightarrow> container_ref \<Rightarrow> error + (field_ref \<times> output_ref)" where
  "converter_at w c =
     (case container_at w (Some c) of
        Inl e \<Rightarrow> Inl e
      | Inr cont \<Rightarrow>
          (case converter cont of None \<Rightarrow> Inl InvalidPointer | Some io \<Rightarrow> Inr io))"

text \<open>
  The tail of both \<open>disconnect\<close> functions with a converter in the link, after the
  input of the converter has been detached: the output of the converter is disconnected
  from this field, the dictionary entry is removed and the converter is released.
\<close>

definition release_converter ::
  "field_ref \<Rightarrow> endpoint \<Rightarrow> container_ref \<Rightarrow> output_ref \<Rightarrow> world \<Rightarrow> error + world" where
  "release_converter this item conv converteroutput w =
     (case removeConnection converteroutput this w of
        Inl e \<Rightarrow> Inl e
      | Inr w1 \<Rightarrow>
          (case with_storage this (removeConverter item) w1 of
             Inl e \<Rightarrow> Inl e
           | Inr w2 \<Rightarrow> Inr (record_event (Unref conv) w2)))"

text \<open>\<open>SoField::disconnect(SoField * master)\<close>.\<close>

function disconnectField :: "nat \<Rightarrow> field_ref \<Rightarrow> field_ref \<Rightarrow> world \<Rightarrow> error + world" where
  "disconnectField 0 this master w = Inl OutOfFuel"
| "disconnectField (Suc n) this master w =
     (case evaluate this w of
        Inl e \<Rightarrow> Inl e
      | Inr w1 \<Rightarrow>
     (case field_at w1 this of
        Inl e \<Rightarrow> Inl e
      | Inr f \<Rightarrow>
     (case container_at w1 (getContainer f) of
        Inl e \<Rightarrow> Inl e
      | Inr cont \<Rightarrow>
     (case (if \<not> isConverter cont then with_storage master (remove_slave this) w1 else Inr w1) of
        Inl e \<Rightarrow> Inl e
      | Inr w2 \<Rightarrow>
     (case with_storage this (remove_masterfield master) w2 of
        Inl e \<Rightarrow> Inl e
      | Inr w3 \<Rightarrow>
          (case findConverter (storage (all_fields w3 ! this)) (FieldItem master) of
             Some conv \<Rightarrow>
               (case converter_at w3 conv of
                  Inl e \<Rightarrow> Inl e
                | Inr (converterinput, converteroutput) \<Rightarrow>
                    (case disconnectField n converterinput master w3 of
                       Inl e \<Rightarrow> Inl e
                     | Inr w4 \<Rightarrow>
                         release_converter this (FieldItem master) conv converteroutput w4))
           | None \<Rightarrow>
               (case field_at w3 master of
                  Inl e \<Rightarrow> Inl e
                | Inr m \<Rightarrow>
                    (case removeAuditor this FIELD m of
                       Inl e \<Rightarrow> Inl e
                     | Inr m' \<Rightarrow> Inr (put_field master m' w3)))))))))"
  by pat_completeness auto
termination
  by (relation "measure (\<lambda>(n, this, master, w). n)") auto

text \<open>\<open>SoField::disconnect(SoEngineOutput * master)\<close>.\<close>

function disconnectEngineOutput ::
  "nat \<Rightarrow> field_ref \<Rightarrow> output_ref \<Rightarrow> world \<Rightarrow> error + world" where
  "disconnectEngineOutput 0 this master w = Inl OutOfFuel"
| "disconnectEngineOutput (Suc n) this master w =
     (case field_at w this of
        Inl e \<Rightarrow> Inl e
      | Inr f \<Rightarrow>
     (case container_at w (getContainer f) of
        Inl e \<Rightarrow> Inl e
      | Inr cont \<Rightarrow>
          (case converter cont of
             Some (converterinput', converterout) \<Rightarrow>
               (case output_at w converterout of
                  Inl e \<Rightarrow> Inl e
                | Inr p \<Rightarrow>
                    (case connections p of
                       [] \<Rightarrow> Inl InvalidPointer
                     | fl0 # fl \<Rightarrow> disconnectEngineOutput n fl0 master w))
           | None \<Rightarrow>
     (case output_at w master of
        Inl e \<Rightarrow> Inl e
      | Inr out \<Rightarrow>
     (case (if enabled out then evaluate this w else Inr w) of
        Inl e \<Rightarrow> Inl e
      | Inr w1 \<Rightarrow>
     (case with_storage this (remove_masterengineout master) w1 of
        Inl e \<Rightarrow> Inl e
      | Inr w2 \<Rightarrow>
          (case findConverter (storage (all_fields w2 ! this)) (OutputItem master) of
             Some conv \<Rightarrow>
               (case converter_at w2 conv of
                  Inl e \<Rightarrow> Inl e
                | Inr (converterinput, converteroutput) \<Rightarrow>
                    (case with_storage converterinput (remove_masterengineout master) w2 of
                       Inl e \<Rightarrow> Inl e
                     | Inr w3 \<Rightarrow>
                         (case removeConnection master converterinput w3 of
                            Inl e \<Rightarrow> Inl e
                          | Inr w4 \<Rightarrow>
                              release_converter this (OutputItem master) conv converteroutput w4)))
           | None \<Rightarrow> removeConnection master this w2)))))))"
  by pat_completeness auto
termination
  by (relation "measure (\<lambda>(n, this, master, w). n)") auto

text \<open>
  The two loops of \<open>SoField::disconnect(void)\<close>. Each iteration reads index 0 of the
  live list again.
\<close>

function disconnect_masterfields :: "nat \<Rightarrow> field_ref \<Rightarrow> world \<Rightarrow> error + world" where
  "disconnect_masterfields 0 this w = Inl OutOfFuel"
| "disconnect_masterfields (Suc n) this w =
     (case field_at w this of
        Inl e \<Rightarrow> Inl e
      | Inr f \<Rightarrow>
          if isConnectedFromField f then
            (case disconnectField (Suc n) this (masterfields (storage f) ! 0) w of
               Inl e \<Rightarrow> Inl e
             | Inr w' \<Rightarrow> disconnect_masterfields n this w')
          else Inr w)"
  by pat_completeness auto
termination
  by (relation "measure (\<lambda>(n, this, w). n)") auto

function disconnect_masterengineouts :: "nat \<Rightarrow> field_ref \<Rightarrow> world \<Rightarrow> error + world" where
  "disconnect_masterengineouts 0 this w = Inl OutOfFuel"
| "disconnect_masterengineouts (Suc n) this w =
     (case field_at w this of
        Inl e \<Rightarrow> Inl e
      | Inr f \<Rightarrow>
          if isConnectedFromEngine f then
            (case disconnectEngineOutput (Suc n) this (masterengineouts (storage f) ! 0) w of
               Inl e \<Rightarrow> Inl e
             | Inr w' \<Rightarrow> disconnect_masterengineouts n this w')
          else Inr w)"
  by pat_completeness auto
termination
  by (relation "measure (\<lambda>(n, this, w). n)") auto

definition disconnect :: "nat \<Rightarrow> field_ref \<Rightarrow> world \<Rightarrow> error + world" where
  "disconnect n this w =
     (case disconnect_masterfields n this w of
        Inl e \<Rightarrow> Inl e
      | Inr w1 \<Rightarrow>
          (case disconnect_masterengineouts n this w1 of
             Inl e \<Rightarrow> Inl e
           | Inr w2 \<Rightarrow>
               (case field_at w2 this of
                  Inl e \<Rightarrow> Inl e
                | Inr f \<Rightarrow>
                    if isConnected f = False then Inr w2
                    else Inl (AssertionFailed ''this->isConnected() == FALSE''))))"

subsection \<open>Connecting\<close>

text \<open>
  Modelled from the spec: the constructors of the converter classes are not in the
  analysed source. A new converter adapter has one input field of the type of the master,
  owned by the converter, and one enabled output port of the type of the slave, with no
  connections. \<open>createConverter\<close> itself is in the source: it asserts that the types
  differ, asks the registry, returns null (\<open>None\<close>) for \<open>badType\<close>, and takes a
  reference on the converter it created.
\<close>

definition new_converter :: "SoType \<Rightarrow> SoType \<Rightarrow> world \<Rightarrow> container_ref \<times> world" where
  "new_converter from_type to_type w =
     (let c = length (all_containers w);
          i = length (all_fields w);
          p = length (all_outputs w)
      in (c, w\<lparr>all_fields := all_fields w @ [setContainer (Some c) (new_SoField from_type 0)],
               all_outputs := all_outputs w @
                 [\<lparr>connectionType = to_type, output_container = Some c, enabled = True,
                   isNodeEngineOutput = False, connections = []\<rparr>],
               all_containers := all_containers w @
                 [\<lparr>isEngine = True, isNodeEngine = False, converter = Some (i, p),
                   fieldnames = [(''input'', i)], outputnames = [(''output'', p)]\<rparr>]\<rparr>))"

definition createConverter ::
  "field_ref \<Rightarrow> SoType \<Rightarrow> world \<Rightarrow> error + (container_ref option \<times> world)" where
  "createConverter this from_type w =
     (case field_at w this of
        Inl e \<Rightarrow> Inl e
      | Inr f \<Rightarrow>
          let thistype = typeId f
          in if \<not> (from_type \<noteq> thistype) then Inl (AssertionFailed ''from != thistype'')
             else let convtype = getConverter w from_type thistype
                  in if convtype = badType then Inr (None, w)
                     else (case new_converter from_type thistype w of
                             (fc, w') \<Rightarrow> Inr (Some fc, record_event (Ref fc) w')))"

definition append_masterfield :: "field_ref \<Rightarrow> SoConnectStorage \<Rightarrow> error + SoConnectStorage" where
  "append_masterfield item s = Inr (s\<lparr>masterfields := masterfields s @ [item]\<rparr>)"

definition append_masterengineout :: "output_ref \<Rightarrow> SoConnectStorage \<Rightarrow> error + SoConnectStorage" where
  "append_masterengineout item s = Inr (s\<lparr>masterengineouts := masterengineouts s @ [item]\<rparr>)"

definition append_slave :: "field_ref \<Rightarrow> SoConnectStorage \<Rightarrow> error + SoConnectStorage" where
  "append_slave item s = Inr (s\<lparr>slaves := slaves s @ [item]\<rparr>)"

definition enter_converter :: "endpoint \<Rightarrow> container_ref \<Rightarrow> SoConnectStorage \<Rightarrow> error + SoConnectStorage" where
  "enter_converter item conv s = Inr (addConverter item conv s)"

text \<open>
  The last part of both \<open>connectFrom\<close> functions: unless suppressed, and if the
  connection is enabled, the field is marked dirty, its default flag is cleared and a
  notification pass is run. The call returns \<open>TRUE\<close>.
\<close>

definition connect_notification ::
  "nat \<Rightarrow> field_ref \<Rightarrow> bool \<Rightarrow> world \<Rightarrow> error + (bool \<times> world)" where
  "connect_notification n this notnotify w =
     (case field_at w this of
        Inl e \<Rightarrow> Inl e
      | Inr f \<Rightarrow>
          if notnotify = False \<and> isConnectionEnabled f then
            (case startNotify n this (put_field this (setDefault False (setDirty True f)) w) of
               Inl e \<Rightarrow> Inl e
             | Inr w' \<Rightarrow> Inr (True, w'))
          else Inr (True, w))"

text \<open>The common bookkeeping of \<open>connectFrom(SoField *)\<close> and its notification.\<close>

definition connect_bookkeeping ::
  "nat \<Rightarrow> field_ref \<Rightarrow> field_ref \<Rightarrow> bool \<Rightarrow> bool \<Rightarrow> world \<Rightarrow> error + (bool \<times> world)" where
  "connect_bookkeeping n this master notnotify containerisconverter w =
     (case with_storage this (append_masterfield master) w of
        Inl e \<Rightarrow> Inl e
      | Inr w1 \<Rightarrow>
          (case (if \<not> containerisconverter then with_storage master (append_slave this) w1
                 else Inr w1) of
             Inl e \<Rightarrow> Inl e
           | Inr w2 \<Rightarrow> connect_notification n this notnotify w2))"

text \<open>\<open>SoField::connectFrom(SoField * master, SbBool notnotify, SbBool append)\<close>.\<close>

function connectFrom ::
  "nat \<Rightarrow> field_ref \<Rightarrow> field_ref \<Rightarrow> bool \<Rightarrow> bool \<Rightarrow> world \<Rightarrow> error + (bool \<times> world)" where
  "connectFrom 0 this master notnotify append' w = Inl OutOfFuel"
| "connectFrom (Suc n) this master notnotify append' w =
     (case field_at w this of
        Inl e \<Rightarrow> Inl e
      | Inr f0 \<Rightarrow>
     (case field_at w master of
        Inl e \<Rightarrow> Inl e
      | Inr m0 \<Rightarrow>
     (let w1 = upd_field master extendStorageIfNecessary
                 (upd_field this extendStorageIfNecessary w);
          mastertype = typeId (all_fields w1 ! master);
          thistype = typeId (all_fields w1 ! this)
      in case container_at w1 (getContainer (all_fields w1 ! this)) of
           Inl e \<Rightarrow> Inl e
         | Inr cont \<Rightarrow>
             if mastertype = thistype then
               (case (if \<not> append' then disconnect n this w1 else Inr w1) of
                  Inl e \<Rightarrow> Inl e
                | Inr w2 \<Rightarrow>
                    connect_bookkeeping n this master notnotify (isConverter cont)
                      (upd_field master (addAuditor this FIELD) w2))
             else
               (case createConverter this mastertype w1 of
                  Inl e \<Rightarrow> Inl e
                | Inr (None, w2) \<Rightarrow> Inr (False, w2)
                | Inr (Some conv, w2) \<Rightarrow>
               (case (if \<not> append' then disconnect n this w2 else Inr w2) of
                  Inl e \<Rightarrow> Inl e
                | Inr w3 \<Rightarrow>
               (case converter_at w3 conv of
                  Inl e \<Rightarrow> Inl e
                | Inr (converterinput, converteroutput) \<Rightarrow>
               (case connectFrom n converterinput master notnotify False w3 of
                  Inl e \<Rightarrow> Inl e
                | Inr (ignored, w4) \<Rightarrow>
               (case addConnection converteroutput this w4 of
                  Inl e \<Rightarrow> Inl e
                | Inr w5 \<Rightarrow>
               (case with_storage this (enter_converter (FieldItem master) conv) w5 of
                  Inl e \<Rightarrow> Inl e
                | Inr w6 \<Rightarrow>
                    connect_bookkeeping n this master notnotify (isConverter cont) w6)))))))))"
  by pat_completeness auto
termination
  by (relation "measure (\<lambda>(n, this, master, notnotify, append', w). n)") auto

text \<open>
  \<open>SoField::connectFrom(SoEngineOutput * master, SbBool notnotify, SbBool append)\<close>.
  The container of the master is pinned by \<open>ref\<close> for the duration of the call.
\<close>

definition pin_container :: "container_ref option \<Rightarrow> world \<Rightarrow> world" where
  "pin_container c w = (case c of None \<Rightarrow> w | Some c' \<Rightarrow> record_event (Ref c') w)"

definition unpin_container :: "container_ref option \<Rightarrow> world \<Rightarrow> world" where
  "unpin_container c w = (case c of None \<Rightarrow> w | Some c' \<Rightarrow> record_event (Unref c') w)"

definition connect_bookkeeping_engine ::
  "nat \<Rightarrow> field_ref \<Rightarrow> output_ref \<Rightarrow> bool \<Rightarrow> container_ref option \<Rightarrow> world \<Rightarrow> error + (bool \<times> world)" where
  "connect_bookkeeping_engine n this master notnotify masterengine w =
     (case with_storage this (append_masterengineout master) (unpin_container masterengine w) of
        Inl e \<Rightarrow> Inl e
      | Inr w1 \<Rightarrow> connect_notification n this notnotify w1)"

function connectFromEngineOutput ::
  "nat \<Rightarrow> field_ref \<Rightarrow> output_ref \<Rightarrow> bool \<Rightarrow> bool \<Rightarrow> world \<Rightarrow> error + (bool \<times> world)" where
  "connectFromEngineOutput 0 this master notnotify append' w = Inl OutOfFuel"
| "connectFromEngineOutput (Suc n) this master notnotify append' w =
     (case field_at w this of
        Inl e \<Rightarrow> Inl e
      | Inr f0 \<Rightarrow>
     (case output_at w master of
        Inl e \<Rightarrow> Inl e
      | Inr out \<Rightarrow>
     (let w0 = upd_field this extendStorageIfNecessary w;
          mastertype = connectionType out;
          thistype = typeId (all_fields w0 ! this);
          masterengine = output_container out;
          w1 = pin_container masterengine w0
      in if mastertype = thistype then
           (case (if \<not> append' then disconnect n this w1 else Inr w1) of
              Inl e \<Rightarrow> Inl e
            | Inr w2 \<Rightarrow>
                (case addConnection master this w2 of
                   Inl e \<Rightarrow> Inl e
                 | Inr w3 \<Rightarrow>
                     connect_bookkeeping_engine n this master notnotify masterengine w3))
         else
           (case createConverter this mastertype w1 of
              Inl e \<Rightarrow> Inl e
            | Inr (None, w2) \<Rightarrow> Inr (False, unpin_container masterengine w2)
            | Inr (Some conv, w2) \<Rightarrow>
           (case (if \<not> append' then disconnect n this w2 else Inr w2) of
              Inl e \<Rightarrow> Inl e
            | Inr w3 \<Rightarrow>
           (case converter_at w3 conv of
              Inl e \<Rightarrow> Inl e
            | Inr (converterinput, converteroutput) \<Rightarrow>
           (case connectFromEngineOutput n converterinput master notnotify False w3 of
              Inl e \<Rightarrow> Inl e
            | Inr (ignored, w4) \<Rightarrow>
           (case addConnection converteroutput this w4 of
              Inl e \<Rightarrow> Inl e
            | Inr w5 \<Rightarrow>
           (case with_storage this (enter_converter (OutputItem master) conv) w5 of
              Inl e \<Rightarrow> Inl e
            | Inr w6 \<Rightarrow>
                connect_bookkeeping_engine n this master notnotify masterengine w6)))))))))"
  by pat_completeness auto
termination
  by (relation "measure (\<lambda>(n, this, master, notnotify, append', w). n)") auto


definition appendConnectionEngineOutput ::
  "nat \<Rightarrow> field_ref \<Rightarrow> output_ref \<Rightarrow> bool \<Rightarrow> world \<Rightarrow> error + (bool \<times> world)" where
  "appendConnectionEngineOutput n this master notnotify w =
     connectFromEngineOutput n this master notnotify True w"

subsection \<open>Reading\<close>

text \<open>
  Modelled from the spec: the stream reader is a collaborator that is not in the analysed
  source. An input has a binary-or-text mode flag, the answer of \<open>checkISReference\<close>
  (its return value and \<open>readok\<close>), the characters of a text stream, the flag words of
  a binary stream, the result of \<open>SoBase::read\<close> for a connection clause (success, and
  the container read) and the names still to be read. \<open>read\<close> takes the next item and
  fails at the end of the input, \<open>putBack\<close> returns a character to the stream.
\<close>

record SoInput =
  isBinary :: bool
  checkISReference :: "bool \<times> bool"
  chars :: string
  flagwords :: "statusword list"
  baseRead :: "bool \<times> container_ref option"
  names :: "string list"

definition read_char :: "SoInput \<Rightarrow> (char \<times> SoInput) option" where
  "read_char inp = (case chars inp of [] \<Rightarrow> None | c # cs \<Rightarrow> Some (c, inp\<lparr>chars := cs\<rparr>))"

definition putBack :: "char \<Rightarrow> SoInput \<Rightarrow> SoInput" where
  "putBack c inp = inp\<lparr>chars := c # chars inp\<rparr>"

definition eof :: "SoInput \<Rightarrow> bool" where
  "eof inp = (chars inp = [])"

definition read_flags :: "SoInput \<Rightarrow> (statusword \<times> SoInput) option" where
  "read_flags inp =
     (case flagwords inp of [] \<Rightarrow> None | x # xs \<Rightarrow> Some (x, inp\<lparr>flagwords := xs\<rparr>))"

definition read_name :: "SoInput \<Rightarrow> (string \<times> SoInput) option" where
  "read_name inp = (case names inp of [] \<Rightarrow> None | x # xs \<Rightarrow> Some (x, inp\<lparr>names := xs\<rparr>))"

definition IGNOREDCHAR :: char where "IGNOREDCHAR = CHR ''~''"
definition CONNECTIONCHAR :: char where "CONNECTIONCHAR = CHR ''=''"

definition IGNORED :: statusword where "IGNORED = 0x01"
definition CONNECTED :: statusword where "CONNECTED = 0x02"
definition DEFAULT :: statusword where "DEFAULT = 0x04"

text \<open>\<open>SoField::readConnection\<close>. A connection that cannot be made is reported only.\<close>

definition readConnection ::
  "nat \<Rightarrow> field_ref \<Rightarrow> SoInput \<Rightarrow> world \<Rightarrow> error + (bool \<times> SoInput \<times> world)" where
  "readConnection n this inp w =
     (case baseRead inp of
        (False, bp) \<Rightarrow> Inr (False, inp, w)
      | (True, None) \<Rightarrow> Inr (False, inp, w)
      | (True, Some fc) \<Rightarrow>
          (case (if \<not> isBinary inp
                 then (case read_char inp of
                         None \<Rightarrow> None
                       | Some (c, inp') \<Rightarrow> if c \<noteq> CHR ''.'' then None else Some inp')
                 else Some inp) of
             None \<Rightarrow> Inr (False, inp, w)
           | Some inp1 \<Rightarrow>
               (case read_name inp1 of
                  None \<Rightarrow> Inr (False, inp1, w)
                | Some (mastername, inp2) \<Rightarrow>
                    (case container_at w (Some fc) of
                       Inl e \<Rightarrow> Inl e
                     | Inr cont \<Rightarrow>
                         (case map_of (fieldnames cont) mastername of
                            None \<Rightarrow>
                              if isEngine cont \<or> isNodeEngine cont then
                                (case map_of (outputnames cont) mastername of
                                   None \<Rightarrow> Inr (False, inp2, w)
                                 | Some masteroutput \<Rightarrow>
                                     (case connectFromEngineOutput n this masteroutput False False w of
                                        Inl e \<Rightarrow> Inl e
                                      | Inr (connected, w') \<Rightarrow> Inr (True, inp2, w')))
                              else Inr (False, inp2, w)
                          | Some masterfield \<Rightarrow>
                              (case connectFrom n this masterfield False False w of
                                 Inl e \<Rightarrow> Inl e
                               | Inr (connected, w') \<Rightarrow> Inr (True, inp2, w')))))))"

text \<open>
  The check for the ignored flag after a value. The first component of the result is
  \<open>FALSE\<close> when \<open>READ_VAL\<close> meets the premature end of the input.
\<close>

definition read_ignored ::
  "nat \<Rightarrow> field_ref \<Rightarrow> SoInput \<Rightarrow> world \<Rightarrow> error + (bool \<times> SoInput \<times> world)" where
  "read_ignored n this inp w =
     (case read_char inp of
        None \<Rightarrow> Inr (False, inp, w)
      | Some (c, inp') \<Rightarrow>
          if c = IGNOREDCHAR
          then (case setIgnored n this True w of
                  Inl e \<Rightarrow> Inl e
                | Inr w' \<Rightarrow> Inr (True, inp', w'))
          else Inr (True, putBack c inp', w))"

text \<open>
  Reading the value of the text form. Modelled from the spec: a concrete field class
  stores the value its \<open>readValue\<close> has parsed, and stores nothing when the parse fails.
\<close>

definition read_value ::
  "(SoInput \<Rightarrow> (int \<times> SoInput) option) \<Rightarrow> field_ref \<Rightarrow> SoInput \<Rightarrow> world
     \<Rightarrow> (SoInput \<times> world) option" where
  "read_value readValue this inp w =
     (case readValue inp of
        None \<Rightarrow> None
      | Some (v, inp') \<Rightarrow> Some (inp', upd_field this (\<lambda>f. f\<lparr>val := v\<rparr>) w))"

text \<open>The check for a connection clause at the end of the text form of a field.\<close>

definition read_connection_clause ::
  "nat \<Rightarrow> field_ref \<Rightarrow> SoInput \<Rightarrow> world \<Rightarrow> error + (bool \<times> SoInput \<times> world)" where
  "read_connection_clause n this inp w =
     (if \<not> eof inp then
        (case read_char inp of
           None \<Rightarrow> Inr (False, inp, w)
         | Some (c, inp') \<Rightarrow>
             if c = CONNECTIONCHAR
             then (case readConnection n this inp' w of
                     Inl e \<Rightarrow> Inl e
                   | Inr (False, inp'', w') \<Rightarrow> Inr (False, inp'', w')
                   | Inr (True, inp'', w') \<Rightarrow> Inr (True, inp'', w'))
             else Inr (True, putBack c inp', w))
      else Inr (True, inp, w))"

text \<open>
  \<open>SoField::read\<close>. \<open>readValue\<close> is implemented by the concrete field classes; it is a
  parameter here, a parser that returns the value read and the rest of the input, or
  fails.
\<close>

definition read ::
  "nat \<Rightarrow> (SoInput \<Rightarrow> (int \<times> SoInput) option) \<Rightarrow> field_ref \<Rightarrow> SoInput \<Rightarrow> world
     \<Rightarrow> error + (bool \<times> SoInput \<times> world)" where
  "read n readValue this inp w =
     (case field_at w this of
        Inl e \<Rightarrow> Inl e
      | Inr f0 \<Rightarrow>
          if fst (checkISReference inp) \<or> snd (checkISReference inp) = False
          then Inr (snd (checkISReference inp), inp, w)
          else
            let w0 = upd_field this (setDirty False) (upd_field this (setDefault False) w)
            in if \<not> isBinary inp then
                 (case read_char inp of
                    None \<Rightarrow> Inr (False, inp, w0)
                  | Some (c, inp1) \<Rightarrow>
                      (case (if c = IGNOREDCHAR
                             then (case setIgnored n this True w0 of
                                     Inl e \<Rightarrow> Inl e
                                   | Inr w1 \<Rightarrow> Inr (True, inp1, w1))
                             else (case read_value readValue this (putBack c inp1) w0 of
                                     None \<Rightarrow> Inr (False, putBack c inp1, w0)
                                   | Some (inp2, w1) \<Rightarrow>
                                       if \<not> eof inp2 then read_ignored n this inp2 w1
                                       else Inr (True, inp2, w1))) of
                         Inl e \<Rightarrow> Inl e
                       | Inr (False, inp3, w3) \<Rightarrow> Inr (False, inp3, w3)
                       | Inr (True, inp3, w3) \<Rightarrow> read_connection_clause n this inp3 w3))
               else
                 (case read_value readValue this inp w0 of
                    None \<Rightarrow> Inr (False, inp, w0)
                  | Some (inp1, w1) \<Rightarrow>
                      (case read_flags inp1 of
                         None \<Rightarrow> Inr (False, inp1, w1)
                       | Some (flags, inp2) \<Rightarrow>
                      (case (if flags AND IGNORED \<noteq> 0 then setIgnored n this True w1 else Inr w1) of
                         Inl e \<Rightarrow> Inl e
                       | Inr w2 \<Rightarrow>
                      (case (if flags AND CONNECTED \<noteq> 0 then readConnection n this inp2 w2
                             else Inr (True, inp2, w2)) of
                         Inl e \<Rightarrow> Inl e
                       | Inr (False, inp3, w3) \<Rightarrow> Inr (False, inp3, w3)
                       | Inr (True, inp3, w3) \<Rightarrow>
                           Inr (True, inp3,
                                if flags AND DEFAULT \<noteq> 0
                                then upd_field this (setDefault True) w3 else w3))))))"

subsection \<open>Example worlds\<close>

text \<open>
  A field that was never given a container, with a sensor attached to it: attaching
  the sensor allocated its extended storage.
\<close>

definition lone_field :: SoField where
  "lone_field = addAuditor 7 SENSOR (new_SoField 1 0)"

definition lone_world :: world where
  "lone_world =
     \<lparr>all_fields = [lone_field], all_outputs = [], all_containers = [], registry = [],
      calls = []\<rparr>"

subsection \<open>Relations between worlds\<close>

text \<open>
  \<open>dirtied w w'\<close>: the world \<open>w'\<close> differs from \<open>w\<close> at most in dirty flags that
  have been set and in the recorded calls.
\<close>

definition fld_rel :: "SoField \<Rightarrow> SoField \<Rightarrow> bool" where
  "fld_rel f f' = (f' = f \<or> f' = setStatusBits FLAG_NEEDEVALUATION f)"

definition dirtied :: "world \<Rightarrow> world \<Rightarrow> bool" where
  "dirtied w w' =
     (list_all2 fld_rel (all_fields w) (all_fields w') \<and> all_outputs w' = all_outputs w \<and>
      all_containers w' = all_containers w \<and> registry w' = registry w)"

text \<open>The number of fields that are not marked as currently notified.\<close>

definition unnotified :: "world \<Rightarrow> nat" where
  "unnotified w = length (filter (\<lambda>f. \<not> getStatus f FLAG_ISNOTIFIED) (all_fields w))"

text \<open>
  Two fields of the same type owned by one node. \<open>connected_world\<close>: field 0 has been
  connected from field 1. \<open>cycle_world\<close>: field 0 is connected from field 1 and
  field 1 from field 0, both without the initial notification.
\<close>

definition node_container :: SoFieldContainer where
  "node_container =
     \<lparr>isEngine = False, isNodeEngine = False, converter = None,
      fieldnames = [(''x'', 0), (''y'', 1)], outputnames = []\<rparr>"

definition two_fields_world :: world where
  "two_fields_world =
     \<lparr>all_fields = [setContainer (Some 0) (new_SoField 1 0),
                    setContainer (Some 0) (new_SoField 1 5)],
      all_outputs = [], all_containers = [node_container], registry = [], calls = []\<rparr>"

definition world_of :: "error + (bool \<times> world) \<Rightarrow> world" where
  "world_of r = (case r of Inl e \<Rightarrow> two_fields_world | Inr (b, w) \<Rightarrow> w)"

definition connected_world :: world where
  "connected_world = world_of (connectFrom 5 0 1 False False two_fields_world)"



text \<open>
  Field 0 of the two fields marked as currently notified; the world after field 0 of
  \<open>connected_world\<close> has been evaluated; and \<open>connected_world\<close> with field 0 in the
  middle of an evaluation.
\<close>

definition notified_world :: world where
  "notified_world = upd_field 0 (setStatusBits FLAG_ISNOTIFIED) two_fields_world"

definition pulled_world :: world where
  "pulled_world = (case evaluate 0 connected_world of Inl e \<Rightarrow> connected_world | Inr w \<Rightarrow> w)"

definition evaluating_world :: world where
  "evaluating_world = upd_field 0 (setStatusBits FLAG_ISEVALUATING) connected_world"

text \<open>
  \<open>value_parse_fails\<close>: what \<open>read\<close> hands to \<open>readValue\<close> is not a value, in the
  binary form the input itself, in the text form the input after a first character that is
  not the ignore marker. \<open>bad_input\<close> is such a text input, and \<open>mismatch_world\<close> has
  two fields of different types and no converter registered.
\<close>

definition value_parse_fails :: "(SoInput \<Rightarrow> (int \<times> SoInput) option) \<Rightarrow> SoInput \<Rightarrow> bool" where
  "value_parse_fails readValue inp =
     (if isBinary inp then readValue inp = None
      else (case read_char inp of
              None \<Rightarrow> False
            | Some (c, inp1) \<Rightarrow> c \<noteq> IGNOREDCHAR \<and> readValue (putBack c inp1) = None))"

definition bad_input :: SoInput where
  "bad_input = \<lparr>isBinary = False, checkISReference = (False, True), chars = ''x'',
     flagwords = [], baseRead = (False, None), names = []\<rparr>"

definition mismatch_world :: world where
  "mismatch_world =
     \<lparr>all_fields = [setContainer (Some 0) (new_SoField 1 0),
                    setContainer (Some 0) (new_SoField 2 5)],
      all_outputs = [], all_containers = [node_container], registry = [], calls = []\<rparr>"







text \<open>
  The number of master links of a field and of a world. \<open>fld_le f f'\<close>: the field
  \<open>f'\<close> has the storage mode, the container and the masters of \<open>f\<close>.
  \<open>unlinked w w'\<close>: from \<open>w\<close> to \<open>w'\<close> no field has changed its storage mode or its
  container or has gained a master, and the containers are the same.
  \<open>owner_not_converter w this\<close>: the field has an owning container that is not a
  converter adapter. \<open>base_errors\<close> are the failures of the operations that
  \<open>disconnect\<close> is made of.
\<close>

definition links :: "SoField \<Rightarrow> nat" where
  "links f = length (masterfields (storage f)) + length (masterengineouts (storage f))"

definition total_links :: "world \<Rightarrow> nat" where
  "total_links w = sum_list (map links (all_fields w))"

definition fld_le :: "SoField \<Rightarrow> SoField \<Rightarrow> bool" where
  "fld_le f f' =
     (hasExtendedStorage f' = hasExtendedStorage f \<and> getContainer f' = getContainer f \<and>
      masterfields (storage f') = masterfields (storage f) \<and>
      masterengineouts (storage f') = masterengineouts (storage f))"

definition unlinked :: "world \<Rightarrow> world \<Rightarrow> bool" where
  "unlinked w w' =
     (all_containers w' = all_containers w \<and> length (all_fields w') = length (all_fields w) \<and>
      (\<forall>x < length (all_fields w).
         hasExtendedStorage (all_fields w' ! x) = hasExtendedStorage (all_fields w ! x) \<and>
         getContainer (all_fields w' ! x) = getContainer (all_fields w ! x) \<and>
         length (masterfields (storage (all_fields w' ! x)))
           \<le> length (masterfields (storage (all_fields w ! x))) \<and>
         length (masterengineouts (storage (all_fields w' ! x)))
           \<le> length (masterengineouts (storage (all_fields w ! x)))))"

definition owner_not_converter :: "world \<Rightarrow> field_ref \<Rightarrow> bool" where
  "owner_not_converter w this =
     (case field_at w this of
        Inl e \<Rightarrow> False
      | Inr f \<Rightarrow>
          (case container_at w (getContainer f) of
             Inl e \<Rightarrow> False
           | Inr c \<Rightarrow> \<not> isConverter c))"

definition base_errors :: "error set" where
  "base_errors =
     {InvalidPointer, AssertionFailed ''idx != -1'', AssertionFailed ''ok'',
      AssertionFailed ''index >= 0'', AssertionFailed ''this->hasExtendedStorage()'',
      AssertionFailed ''0'', AssertionFailed ''!this->getStatus(FLAG_ISEVALUATING)''}"

text \<open>
  Two fields and an engine with one output; in \<open>both_masters_world\<close> field 0 has been
  connected from field 1 and then, appending, from the output of the engine.
\<close>

definition engine_container :: SoFieldContainer where
  "engine_container =
     \<lparr>isEngine = True, isNodeEngine = False, converter = None,
      fieldnames = [], outputnames = [(''out'', 0)]\<rparr>"

definition engine_world :: world where
  "engine_world =
     \<lparr>all_fields = [setContainer (Some 0) (new_SoField 1 0),
                    setContainer (Some 0) (new_SoField 1 5)],
      all_outputs = [\<lparr>connectionType = 1, output_container = Some 1, enabled = True,
                      isNodeEngineOutput = False, connections = []\<rparr>],
      all_containers = [node_container, engine_container], registry = [], calls = []\<rparr>"

definition both_masters_world :: world where
  "both_masters_world =
     world_of (connectFromEngineOutput 5 0 0 False True
                 (world_of (connectFrom 5 0 1 False False engine_world)))"

section \<open>Verified properties\<close>

subsection \<open>Status bits\<close>

lemmas flag_defs = FLAG_TYPEMASK_def FLAG_ISDEFAULT_def FLAG_IGNORE_def FLAG_EXTSTORAGE_def
  FLAG_ENABLECONNECTS_def FLAG_NEEDEVALUATION_def FLAG_READONLY_def FLAG_DONOTIFY_def
  FLAG_ISDESTRUCTING_def FLAG_ISEVALUATING_def FLAG_ISNOTIFIED_def

lemma changeStatusBits_snd:
  "snd (changeStatusBits bits onoff f) =
     (if onoff then setStatusBits bits f else clearStatusBits bits f)"
  by (simp add: changeStatusBits_def Let_def setStatusBits_def clearStatusBits_def)

lemma setDirty_eq:
  "setDirty d f =
     (if d then setStatusBits FLAG_NEEDEVALUATION f else clearStatusBits FLAG_NEEDEVALUATION f)"
  by (simp add: setDirty_def changeStatusBits_snd)

lemma setDefault_eq:
  "setDefault d f =
     (if d then setStatusBits FLAG_ISDEFAULT f else clearStatusBits FLAG_ISDEFAULT f)"
  by (simp add: setDefault_def changeStatusBits_snd)

lemma getStatus_setStatusBits:
  "getStatus (setStatusBits b f) c = (getStatus f c \<or> b AND c \<noteq> 0)"
  by (auto simp add: getStatus_def setStatusBits_def bit.conj_disj_distrib2 or_eq_0_iff)

lemma word_and_not_disjoint:
  "(c::statusword) AND b = 0 \<Longrightarrow> (s AND NOT b) AND c = s AND c"
  by (rule bit_word_eqI) (auto simp add: bit_simps bit_eq_iff)

lemma getStatus_clearStatusBits_other:
  "c AND b = 0 \<Longrightarrow> getStatus (clearStatusBits b f) c = getStatus f c"
  by (simp add: getStatus_def clearStatusBits_def word_and_not_disjoint)

lemma getStatus_clearStatusBits_same:
  "getStatus (clearStatusBits b f) b = False"
  by (simp add: getStatus_def clearStatusBits_def and.assoc)

subsection \<open>Containers\<close>

text \<open>
  Claim C10. For every field and every container \<open>c\<close> (null included),
  \<open>setContainer(c)\<close> makes \<open>getContainer()\<close> return \<open>c\<close> and sets the default flag,
  whatever the flag was before and whichever storage mode the field is in.
\<close>

theorem setContainer_sets_default:
  "getContainer (setContainer c f) = c \<and> isDefault (setContainer c f)"
  by (simp add: setContainer_def getContainer_def isDefault_def hasExtendedStorage_def
      setDefault_eq getStatus_def setStatusBits_def flag_defs bit.conj_disj_distrib2)

subsection \<open>Notification changes dirty flags only\<close>

lemmas world_defs = field_at_def output_at_def container_at_def put_field_def upd_field_def
  put_output_def record_event_def

lemma setStatusBits_idem: "setStatusBits b (setStatusBits b f) = setStatusBits b f"
  by (simp add: setStatusBits_def)

lemma fld_rel_refl: "fld_rel f f"
  by (simp add: fld_rel_def)

lemma fld_rel_trans: "fld_rel f g \<Longrightarrow> fld_rel g h \<Longrightarrow> fld_rel f h"
  by (auto simp add: fld_rel_def setStatusBits_idem)

lemma dirtied_refl: "dirtied w w"
  by (simp add: dirtied_def list_all2_refl fld_rel_refl)

lemma dirtied_trans: "dirtied w w1 \<Longrightarrow> dirtied w1 w2 \<Longrightarrow> dirtied w w2"
  unfolding dirtied_def
  by (auto intro: list_all2_trans[where ?P1.0 = fld_rel and ?P2.0 = fld_rel, rotated] fld_rel_trans)

lemma dirtied_record_event: "dirtied w (record_event e w)"
  by (simp add: dirtied_def record_event_def list_all2_refl fld_rel_refl)

lemma list_all2_update_right:
  "P (xs ! r) y \<Longrightarrow> (\<And>x. P x x) \<Longrightarrow> list_all2 P xs (xs[r := y])"
  by (cases "r < length xs") (auto simp add: list_all2_conv_all_nth nth_list_update)

lemma dirtied_upd_field:
  "fld_rel (all_fields w ! r) (g (all_fields w ! r)) \<Longrightarrow> dirtied w (upd_field r g w)"
  by (simp add: dirtied_def upd_field_def list_all2_update_right fld_rel_refl)

lemma dirtied_notify_mark: "dirtied w (notify_mark this nlist w)"
  by (auto simp add: notify_mark_def setDirty_eq fld_rel_def
      intro!: dirtied_trans[OF dirtied_upd_field dirtied_record_event] dirtied_refl)

lemma dirtied_notify_container: "dirtied w (notify_container c w)"
  by (simp add: notify_container_def dirtied_refl dirtied_record_event split: option.splits)

lemma word_or_and_not: "(s::statusword) AND b = 0 \<Longrightarrow> (s OR b) AND NOT b = s"
  by (rule bit_word_eqI) (auto simp add: bit_simps bit_eq_iff)


lemma restore_notified:
  assumes "\<not> getStatus f FLAG_ISNOTIFIED" "fld_rel f f1"
    "fld_rel (setStatusBits FLAG_ISNOTIFIED f1) f4"
  shows "fld_rel f (clearStatusBits FLAG_ISNOTIFIED f4)"
proof -
  have z: "statusbits f AND FLAG_ISNOTIFIED = 0"
    using assms(1) by (simp add: getStatus_def)
  have d: "FLAG_NEEDEVALUATION AND FLAG_ISNOTIFIED = 0"
    by (simp add: flag_defs)
  have a: "(statusbits f OR FLAG_ISNOTIFIED) AND NOT FLAG_ISNOTIFIED = statusbits f"
    by (rule word_or_and_not[OF z])
  have zn: "(statusbits f OR FLAG_NEEDEVALUATION) AND FLAG_ISNOTIFIED = 0"
    using z d by (simp add: bit.conj_disj_distrib2)
  have b: "((statusbits f OR FLAG_NEEDEVALUATION) OR FLAG_ISNOTIFIED) AND NOT FLAG_ISNOTIFIED
           = statusbits f OR FLAG_NEEDEVALUATION"
    by (rule word_or_and_not[OF zn])
  have c: "((statusbits f OR FLAG_ISNOTIFIED) OR FLAG_NEEDEVALUATION) AND NOT FLAG_ISNOTIFIED
           = statusbits f OR FLAG_NEEDEVALUATION"
    using b by (simp add: ac_simps)
  have e: "(((statusbits f OR FLAG_NEEDEVALUATION) OR FLAG_ISNOTIFIED) OR FLAG_NEEDEVALUATION)
             AND NOT FLAG_ISNOTIFIED = statusbits f OR FLAG_NEEDEVALUATION"
    using b by (simp add: ac_simps)
  show ?thesis
    using assms(2,3) a b c e
    by (auto simp add: fld_rel_def setStatusBits_def clearStatusBits_def)
qed

lemma dirtied_length: "dirtied w w' \<Longrightarrow> length (all_fields w') = length (all_fields w)"
  by (auto simp add: dirtied_def dest: list_all2_lengthD)

lemma notify_dirtied:
  "(notify n this nlist w = Inr (nlist', w') \<longrightarrow> dirtied w w')"
  "(notifyAuditors n this nlist w = Inr (nlist', w') \<longrightarrow> dirtied w w')"
  "(auditors_notify n auds nlist w = Inr (nlist', w') \<longrightarrow> dirtied w w')"
proof (induction n this nlist w and n this nlist w and n auds nlist w
    arbitrary: nlist' w' and nlist' w' and nlist' w'
    rule: notify_notifyAuditors_auditors_notify.induct)
  case (1 this nlist w)
  then show ?case by simp
next
  case (2 n this nlist w)
  show ?case
  proof
    assume r: "notify (Suc n) this nlist w = Inr (nlist', w')"
    then obtain f where f: "field_at w this = Inr f"
      by (auto split: sum.splits)
    show "dirtied w w'"
    proof (cases "getStatus f FLAG_ISNOTIFIED")
      case True
      with r f show ?thesis by (simp add: dirtied_refl)
    next
      case False
      note unmarked = this
      show ?thesis
      proof (cases "isNotifyEnabled f")
        case False
        with r f unmarked show ?thesis by (auto simp add: dirtied_notify_mark)
      next
        case True
        define w3 where "w3 = notify_container (getContainer f)
                       (upd_field this (setStatusBits FLAG_ISNOTIFIED)
                          (notify_mark this nlist w))"
        from r f unmarked True obtain w4 where
          a: "notifyAuditors n this (nlist @ [(CONTAINER, getContainer f)]) w3 = Inr (nlist', w4)"
          and w': "w' = upd_field this (clearStatusBits FLAG_ISNOTIFIED) w4"
          by (auto simp add: w3_def split: sum.splits)
        from 2[OF f unmarked True] a have d34: "dirtied w3 w4"
          by (simp add: w3_def)
        have len: "this < length (all_fields w)"
          using f by (simp add: field_at_def split: if_splits)
        have fthis: "all_fields w ! this = f"
          using f by (simp add: field_at_def split: if_splits)
        have dm: "dirtied w (notify_mark this nlist w)"
          by (rule dirtied_notify_mark)
        have f3: "all_fields w3 = (all_fields (notify_mark this nlist w))
            [this := setStatusBits FLAG_ISNOTIFIED (all_fields (notify_mark this nlist w) ! this)]"
          by (simp add: w3_def notify_container_def world_defs split: option.splits)
        have rest3: "all_outputs w3 = all_outputs w \<and> all_containers w3 = all_containers w
            \<and> registry w3 = registry w"
          using dm by (simp add: w3_def notify_container_def world_defs dirtied_def split: option.splits)
        have "list_all2 fld_rel (all_fields w) (all_fields w')"
          unfolding list_all2_conv_all_nth
        proof (intro conjI allI impI)
          show "length (all_fields w) = length (all_fields w')"
            using dm d34 f3 by (auto simp add: w' upd_field_def dirtied_def dest!: list_all2_lengthD)
        next
          fix i assume i: "i < length (all_fields w)"
          have l1: "length (all_fields (notify_mark this nlist w)) = length (all_fields w)"
            using dm by (rule dirtied_length)
          have l4: "length (all_fields w4) = length (all_fields w)"
            using d34 f3 l1 by (auto simp add: dirtied_def dest!: list_all2_lengthD)
          have r1: "fld_rel (all_fields w ! i) (all_fields (notify_mark this nlist w) ! i)"
            using dm i by (simp add: dirtied_def list_all2_conv_all_nth)
          have r4: "fld_rel (all_fields w3 ! i) (all_fields w4 ! i)"
            using d34 i f3 l1 by (simp add: dirtied_def list_all2_conv_all_nth)
          show "fld_rel (all_fields w ! i) (all_fields w' ! i)"
          proof (cases "i = this")
            case True
            have "fld_rel f (clearStatusBits FLAG_ISNOTIFIED (all_fields w4 ! this))"
              using r1 r4 True fthis l1 len unmarked
              by (intro restore_notified[where ?f1.0 = "all_fields (notify_mark this nlist w) ! this"])
                 (simp_all add: f3)
            then show ?thesis
              using True l4 len fthis by (simp add: w' upd_field_def)
          next
            case False
            then have "all_fields w3 ! i = all_fields (notify_mark this nlist w) ! i"
              by (simp add: f3)
            with r1 r4 have "fld_rel (all_fields w ! i) (all_fields w4 ! i)"
              by (auto intro: fld_rel_trans)
            then show ?thesis
              using False by (simp add: w' upd_field_def)
          qed
        qed
        then show ?thesis
          using rest3 d34 by (simp add: dirtied_def w' upd_field_def)
      qed
    qed
  qed
next
  case (3 n this l w)
  then show ?case by (auto split: sum.splits if_splits simp add: dirtied_refl)
next
  case (4 n l w)
  then show ?case by (simp add: dirtied_refl)
next
  case (5 n a t rest l w)
  then show ?case
    by (auto split: sum.splits if_splits) (blast intro: dirtied_trans dirtied_record_event)+
qed

subsection \<open>Notification terminates\<close>

lemma fld_rel_getStatus:
  "fld_rel f f' \<Longrightarrow> FLAG_NEEDEVALUATION AND c = 0 \<Longrightarrow> getStatus f' c = getStatus f c"
  by (auto simp add: fld_rel_def getStatus_setStatusBits)

lemma fld_rel_notified:
  "fld_rel f f' \<Longrightarrow> getStatus f' FLAG_ISNOTIFIED = getStatus f FLAG_ISNOTIFIED"
  by (rule fld_rel_getStatus) (simp_all add: flag_defs)

lemma fld_rel_getDirty: "fld_rel f f' \<Longrightarrow> getDirty f \<Longrightarrow> getDirty f'"
  by (auto simp add: fld_rel_def getDirty_def getStatus_setStatusBits)


lemma filter_length_update_less:
  "i < length xs \<Longrightarrow> P (xs ! i) \<Longrightarrow> \<not> P y \<Longrightarrow>
     Suc (length (filter P (xs[i := y]))) = length (filter P xs)"
proof (induction xs arbitrary: i)
  case Nil
  then show ?case by simp
next
  case (Cons x xs)
  then show ?case by (cases i) auto
qed

lemma filter_length_all2:
  "list_all2 R xs ys \<Longrightarrow> (\<And>x y. R x y \<Longrightarrow> P x = P y) \<Longrightarrow>
     length (filter P ys) = length (filter P xs)"
  by (induction rule: list_all2_induct) auto

lemma unnotified_dirtied: "dirtied w w' \<Longrightarrow> unnotified w' = unnotified w"
  unfolding unnotified_def dirtied_def
  by (auto intro!: filter_length_all2[where R = fld_rel] simp add: fld_rel_notified)

lemma unnotified_record_event [simp]: "unnotified (record_event e w) = unnotified w"
  by (simp add: unnotified_def record_event_def)

lemma unnotified_enter:
  assumes f: "field_at w this = Inr f" and u: "\<not> getStatus f FLAG_ISNOTIFIED"
  shows "Suc (unnotified (notify_container c
           (upd_field this (setStatusBits FLAG_ISNOTIFIED) (notify_mark this nlist w))))
         = unnotified w"
proof -
  let ?m = "notify_mark this nlist w"
  have dm: "dirtied w ?m" by (rule dirtied_notify_mark)
  have len: "this < length (all_fields w)" and fthis: "all_fields w ! this = f"
    using f by (simp_all add: field_at_def split: if_splits)
  have lm: "this < length (all_fields ?m)"
    using dirtied_length[OF dm] len by simp
  have "fld_rel f (all_fields ?m ! this)"
    using dm len fthis by (auto simp add: dirtied_def list_all2_conv_all_nth)
  then have um: "\<not> getStatus (all_fields ?m ! this) FLAG_ISNOTIFIED"
    using u by (simp add: fld_rel_notified)
  have "Suc (unnotified (upd_field this (setStatusBits FLAG_ISNOTIFIED) ?m)) = unnotified ?m"
    unfolding unnotified_def upd_field_def
    using lm um
    by (simp add: filter_length_update_less getStatus_setStatusBits flag_defs)
  moreover have "unnotified (notify_container c w1) = unnotified w1" for w1
    by (simp add: notify_container_def split: option.splits)
  ultimately show ?thesis
    using unnotified_dirtied[OF dm] by simp
qed

lemma notify_fuel:
  "unnotified w < n \<longrightarrow> notify n this nlist w \<noteq> Inl OutOfFuel"
  "unnotified w < n \<longrightarrow> notifyAuditors n this nlist w \<noteq> Inl OutOfFuel"
  "unnotified w < n \<longrightarrow> auditors_notify n auds nlist w \<noteq> Inl OutOfFuel"
proof (induction n this nlist w and n this nlist w and n auds nlist w
    rule: notify_notifyAuditors_auditors_notify.induct)
  case (1 this nlist w)
  then show ?case by simp
next
  case (2 n this nlist w)
  show ?case
  proof
    assume b: "unnotified w < Suc n"
    show "notify (Suc n) this nlist w \<noteq> Inl OutOfFuel"
    proof (cases "field_at w this")
      case (Inl e)
      then show ?thesis by (auto simp add: field_at_def split: if_splits)
    next
      case (Inr f)
      show ?thesis
      proof (cases "\<not> getStatus f FLAG_ISNOTIFIED \<and> isNotifyEnabled f")
        case False
        with Inr show ?thesis by auto
      next
        case True
        then have u: "\<not> getStatus f FLAG_ISNOTIFIED" and e: "isNotifyEnabled f" by simp_all
        from unnotified_enter[OF Inr u, of "getContainer f" nlist] b
        have "unnotified (notify_container (getContainer f)
           (upd_field this (setStatusBits FLAG_ISNOTIFIED) (notify_mark this nlist w))) < n"
          by linarith
        with 2[OF Inr u e] Inr u e show ?thesis
          by (auto split: sum.splits)
      qed
    qed
  qed
next
  case (3 n this l w)
  then show ?case by (auto split: sum.splits if_splits simp add: field_at_def)
next
  case (4 n l w)
  then show ?case by simp
next
  case (5 n a t rest l w)
  show ?case
  proof
    assume b: "unnotified w < n"
    show "auditors_notify n ((a, t) # rest) l w \<noteq> Inl OutOfFuel"
    proof (cases "t = FIELD")
      case False
      with 5(3)[OF False] b show ?thesis by simp
    next
      case True
      from 5(1)[OF True] b have n1: "notify n a l w \<noteq> Inl OutOfFuel" by simp
      show ?thesis
      proof (cases "notify n a l w")
        case (Inl e)
        with n1 True show ?thesis by simp
      next
        case (Inr r)
        obtain l1 w1 where r: "r = (l1, w1)" by (cases r)
        from notify_dirtied(1)[of n a l w l1 w1] Inr r have "dirtied w w1" by simp
        then have "unnotified w1 < n"
          using b by (simp add: unnotified_dirtied)
        with 5(2)[OF True Inr r[symmetric]] Inr r True show ?thesis by simp
      qed
    qed
  qed
qed

subsection \<open>Notification passes\<close>

lemma all_fields_record_event [simp]: "all_fields (record_event e w) = all_fields w"
  by (simp add: record_event_def)

lemma calls_record_event [simp]: "calls (record_event e w) = calls w @ [e]"
  by (simp add: record_event_def)

lemma all_fields_notify_container [simp]: "all_fields (notify_container c w) = all_fields w"
  by (simp add: notify_container_def split: option.splits)

lemma count_notify_container [simp]:
  "count_list (calls (notify_container c w)) (MarkedDirty x) = count_list (calls w) (MarkedDirty x)"
  by (simp add: notify_container_def split: option.splits)

lemma all_fields_upd_field [simp]:
  "all_fields (upd_field r g w) = (all_fields w)[r := g (all_fields w ! r)]"
  by (simp add: upd_field_def)

lemma calls_upd_field [simp]: "calls (upd_field r g w) = calls w"
  by (simp add: upd_field_def)

lemma field_parts_setStatusBits [simp]:
  "storage (setStatusBits b f) = storage f" "container (setStatusBits b f) = container f"
  "typeId (setStatusBits b f) = typeId f" "val (setStatusBits b f) = val f"
  "storage (clearStatusBits b f) = storage f" "container (clearStatusBits b f) = container f"
  "typeId (clearStatusBits b f) = typeId f" "val (clearStatusBits b f) = val f"
  by (simp_all add: setStatusBits_def clearStatusBits_def)






text \<open>
  Claim C4, as amended. A field that is not marked as currently notified and receives
  \<open>notify\<close> with a trace that has a prior record is dirty when the call returns,
  whether its notify-enabled flag is set or not; with the flag clear the call does nothing
  but the marking. The call returns for every sufficient recursion budget. (A field that is
  marked as currently notified returns at the guard and is not marked.)
\<close>

theorem notify_marks_dirty:
  assumes f: "field_at w this = Inr f" and u: "\<not> getStatus f FLAG_ISNOTIFIED"
    and ne: "nlist \<noteq> []"
  shows "(\<forall>nlist' w'. notify n this nlist w = Inr (nlist', w') \<longrightarrow>
            getDirty (all_fields w' ! this)) \<and>
         (\<not> isNotifyEnabled f \<longrightarrow>
            notify (Suc n) this nlist w =
              Inr (nlist, record_event (MarkedDirty this) (upd_field this (setDirty True) w))) \<and>
         (\<exists>k. \<forall>m. k \<le> m \<longrightarrow> notify m this nlist w \<noteq> Inl OutOfFuel)"
proof (intro conjI allI impI)
  fix nlist' w' assume r: "notify n this nlist w = Inr (nlist', w')"
  have len: "this < length (all_fields w)" and fthis: "all_fields w ! this = f"
    using f by (simp_all add: field_at_def split: if_splits)
  obtain k where n: "n = Suc k" using r by (cases n) auto
  show "getDirty (all_fields w' ! this)"
  proof (cases "isNotifyEnabled f")
    case False
    with r f u ne n len show ?thesis
      by (auto simp add: notify_mark_def setDirty_eq getDirty_def getStatus_setStatusBits flag_defs)
  next
    case True
    define w3 where "w3 = notify_container (getContainer f)
                       (upd_field this (setStatusBits FLAG_ISNOTIFIED)
                          (notify_mark this nlist w))"
    from r f u True n obtain w4 where
      a: "notifyAuditors k this (nlist @ [(CONTAINER, getContainer f)]) w3 = Inr (nlist', w4)"
      and w': "w' = upd_field this (clearStatusBits FLAG_ISNOTIFIED) w4"
      by (auto simp add: w3_def split: sum.splits)
    from notify_dirtied(2)[of k this _ w3 nlist' w4] a have d: "dirtied w3 w4" by simp
    have "getDirty (all_fields w3 ! this)"
      using len ne
      by (simp add: w3_def notify_mark_def setDirty_eq getDirty_def getStatus_setStatusBits flag_defs)
    moreover have l3: "this < length (all_fields w3)"
      using len ne by (simp add: w3_def notify_mark_def)
    ultimately have "getDirty (all_fields w4 ! this)"
      using d by (auto simp add: dirtied_def list_all2_conv_all_nth intro: fld_rel_getDirty)
    moreover have "this < length (all_fields w4)"
      using dirtied_length[OF d] l3 by simp
    ultimately show ?thesis
      by (simp add: w' getDirty_def getStatus_clearStatusBits_other flag_defs)
  qed
next
  assume "\<not> isNotifyEnabled f"
  with f u ne show "notify (Suc n) this nlist w =
      Inr (nlist, record_event (MarkedDirty this) (upd_field this (setDirty True) w))"
    by (simp add: notify_mark_def)
next
  show "\<exists>k. \<forall>m. k \<le> m \<longrightarrow> notify m this nlist w \<noteq> Inl OutOfFuel"
  proof (intro exI allI impI)
    fix m assume "Suc (unnotified w) \<le> m"
    then have "unnotified w < m" by simp
    with notify_fuel(1) show "notify m this nlist w \<noteq> Inl OutOfFuel" by blast
  qed
qed

theorem notify_marks_dirty_witness:
  "field_at connected_world 1 = Inr (all_fields connected_world ! 1) \<and>
   \<not> getStatus (all_fields connected_world ! 1) FLAG_ISNOTIFIED \<and>
   (case notify 3 1 [(CONTAINER, Some 0)] connected_world of
      Inl e \<Rightarrow> False
    | Inr (l, w') \<Rightarrow> getDirty (all_fields w' ! 1))"
proof -
  have f: "field_at connected_world 1 = Inr (all_fields connected_world ! 1)"
    by code_simp
  have u: "\<not> getStatus (all_fields connected_world ! 1) FLAG_ISNOTIFIED"
    by code_simp
  have "\<not> isl (notify 3 1 [(CONTAINER, Some 0)] connected_world)"
    by code_simp
  then obtain l w' where r: "notify 3 1 [(CONTAINER, Some 0)] connected_world = Inr (l, w')"
    by (cases "notify 3 1 [(CONTAINER, Some 0)] connected_world") auto
  from notify_marks_dirty[OF f u, of "[(CONTAINER, Some 0)]" 3] r
  have "getDirty (all_fields w' ! 1)" by simp
  with f u r show ?thesis by simp
qed

theorem notify_reentered_counterexample:
  "field_at notified_world 0 = Inr (all_fields notified_world ! 0) \<and>
   notify 3 0 [(CONTAINER, Some 0)] notified_world = Inr ([(CONTAINER, Some 0)], notified_world) \<and>
   \<not> getDirty (all_fields notified_world ! 0)"
  by code_simp

subsection \<open>Evaluation\<close>

lemma evaluateConnection_length:
  "evaluateConnection this w = Inr w' \<Longrightarrow> length (all_fields w') = length (all_fields w)"
  by (auto simp add: evaluateConnection_def Let_def world_defs
      split: sum.splits if_splits option.splits prod.splits)

text \<open>
  Claim C5. A second \<open>evaluate\<close> right after one that returned changes nothing;
  \<open>evaluate\<close> changes nothing when the field is destructing, not dirty or not
  connected; otherwise a call that returns has run \<open>evaluateConnection\<close> under the
  evaluating flag and has cleared the dirty flag.
\<close>

theorem evaluate_idempotent:
  "(evaluate this w = Inr w' \<longrightarrow> evaluate this w' = Inr w') \<and>
   (field_at w this = Inr f \<and>
      (getStatus f FLAG_ISDESTRUCTING \<or> \<not> getDirty f \<or> \<not> isConnected f) \<longrightarrow>
        evaluate this w = Inr w) \<and>
   (field_at w this = Inr f \<and> \<not> getStatus f FLAG_ISDESTRUCTING \<and> getDirty f \<and>
      isConnected f \<and> evaluate this w = Inr w' \<longrightarrow>
        (\<exists>w''. evaluateConnection this (upd_field this (setStatusBits FLAG_ISEVALUATING) w)
                  = Inr w'' \<and>
               w' = upd_field this (setDirty False)
                      (upd_field this (clearStatusBits FLAG_ISEVALUATING) w'')) \<and>
        \<not> getDirty (all_fields w' ! this))"
proof (intro conjI impI)
  assume r: "evaluate this w = Inr w'"
  then obtain f0 where f0: "field_at w this = Inr f0"
    by (auto simp add: evaluate_def split: sum.splits)
  show "evaluate this w' = Inr w'"
  proof (cases "getStatus f0 FLAG_ISDESTRUCTING \<or> \<not> getDirty f0 \<or> \<not> isConnected f0")
    case True
    with r f0 have "w' = w" by (auto simp add: evaluate_def split: if_splits)
    with r show ?thesis by simp
  next
    case False
    with r f0 obtain w2 where
      e: "evaluateConnection this (upd_field this (setStatusBits FLAG_ISEVALUATING) w) = Inr w2"
      and w': "w' = upd_field this (setDirty False)
                      (upd_field this (clearStatusBits FLAG_ISEVALUATING) w2)"
      by (auto simp add: evaluate_def split: sum.splits if_splits)
    have "length (all_fields w2) = length (all_fields w)"
      using evaluateConnection_length[OF e] by simp
    moreover have "this < length (all_fields w)"
      using f0 by (simp add: field_at_def split: if_splits)
    ultimately show ?thesis
      by (simp add: w' evaluate_def field_at_def setDirty_eq getDirty_def
          getStatus_clearStatusBits_same)
  qed
next
  assume "field_at w this = Inr f \<and>
      (getStatus f FLAG_ISDESTRUCTING \<or> \<not> getDirty f \<or> \<not> isConnected f)"
  then show "evaluate this w = Inr w"
    by (auto simp add: evaluate_def)
next
  assume a: "field_at w this = Inr f \<and> \<not> getStatus f FLAG_ISDESTRUCTING \<and> getDirty f \<and>
      isConnected f \<and> evaluate this w = Inr w'"
  then obtain w2 where
      e: "evaluateConnection this (upd_field this (setStatusBits FLAG_ISEVALUATING) w) = Inr w2"
      and w': "w' = upd_field this (setDirty False)
                      (upd_field this (clearStatusBits FLAG_ISEVALUATING) w2)"
    by (auto simp add: evaluate_def split: sum.splits if_splits)
  then show "\<exists>w''. evaluateConnection this (upd_field this (setStatusBits FLAG_ISEVALUATING) w)
                  = Inr w'' \<and>
               w' = upd_field this (setDirty False)
                      (upd_field this (clearStatusBits FLAG_ISEVALUATING) w'')"
    by blast
  have "length (all_fields w2) = length (all_fields w)"
    using evaluateConnection_length[OF e] by simp
  moreover have "this < length (all_fields w)"
    using a by (simp add: field_at_def split: if_splits)
  ultimately show "\<not> getDirty (all_fields w' ! this)"
    by (simp add: w' setDirty_eq getDirty_def getStatus_clearStatusBits_same)
qed

theorem evaluate_idempotent_witness:
  "evaluate 0 connected_world = Inr pulled_world \<and>
   evaluate 0 pulled_world = Inr pulled_world \<and>
   getDirty (all_fields connected_world ! 0) \<and>
   \<not> getDirty (all_fields pulled_world ! 0) \<and>
   val (all_fields connected_world ! 0) = 0 \<and> val (all_fields pulled_world ! 0) = 5"
proof -
  have h: "evaluate 0 connected_world = Inr pulled_world"
    by code_simp
  have v: "getDirty (all_fields connected_world ! 0) \<and>
   \<not> getDirty (all_fields pulled_world ! 0) \<and>
   val (all_fields connected_world ! 0) = 0 \<and> val (all_fields pulled_world ! 0) = 5"
    by code_simp
  from evaluate_idempotent[of 0 connected_world pulled_world] h
  have "evaluate 0 pulled_world = Inr pulled_world" by simp
  with h v show ?thesis by simp
qed

text \<open>
  Claim C6. \<open>evaluate\<close> entered on a dirty, connected field whose evaluating flag is
  set fails the assertion; and whenever \<open>evaluate\<close> returns having changed anything,
  the evaluating flag was clear when it was entered and is clear again when it returns.
\<close>

theorem evaluate_reentry_is_fatal:
  "field_at w this = Inr f \<Longrightarrow>
     (getStatus f FLAG_ISEVALUATING \<and> \<not> getStatus f FLAG_ISDESTRUCTING \<and> getDirty f \<and>
        isConnected f \<longrightarrow>
          evaluate this w = Inl (AssertionFailed ''!this->getStatus(FLAG_ISEVALUATING)'')) \<and>
     (\<forall>w'. evaluate this w = Inr w' \<and> w' \<noteq> w \<longrightarrow>
          \<not> getStatus f FLAG_ISEVALUATING \<and>
          \<not> getStatus (all_fields w' ! this) FLAG_ISEVALUATING)"
proof -
  assume f: "field_at w this = Inr f"
  have first: "getStatus f FLAG_ISEVALUATING \<and> \<not> getStatus f FLAG_ISDESTRUCTING \<and>
      getDirty f \<and> isConnected f \<longrightarrow>
        evaluate this w = Inl (AssertionFailed ''!this->getStatus(FLAG_ISEVALUATING)'')"
    using f by (simp add: evaluate_def)
  have second: "\<not> getStatus f FLAG_ISEVALUATING \<and>
          \<not> getStatus (all_fields w' ! this) FLAG_ISEVALUATING"
    if r: "evaluate this w = Inr w' \<and> w' \<noteq> w" for w'
  proof -
    from f r have c: "\<not> getStatus f FLAG_ISEVALUATING"
      by (auto simp add: evaluate_def split: if_splits)
    from f r obtain w2 where
      e: "evaluateConnection this (upd_field this (setStatusBits FLAG_ISEVALUATING) w) = Inr w2"
      and w': "w' = upd_field this (setDirty False)
                      (upd_field this (clearStatusBits FLAG_ISEVALUATING) w2)"
      by (auto simp add: evaluate_def split: sum.splits if_splits)
    have "length (all_fields w2) = length (all_fields w)"
      using evaluateConnection_length[OF e] by simp
    moreover have "this < length (all_fields w)"
      using f by (simp add: field_at_def split: if_splits)
    ultimately have "\<not> getStatus (all_fields w' ! this) FLAG_ISEVALUATING"
      by (simp add: w' setDirty_eq getStatus_clearStatusBits_same
          getStatus_clearStatusBits_other flag_defs)
    with c show ?thesis by simp
  qed
  from first second show ?thesis by blast
qed

theorem evaluate_reentry_is_fatal_witness:
  "field_at evaluating_world 0 = Inr (all_fields evaluating_world ! 0) \<and>
   getStatus (all_fields evaluating_world ! 0) FLAG_ISEVALUATING \<and>
   evaluate 0 evaluating_world = Inl (AssertionFailed ''!this->getStatus(FLAG_ISEVALUATING)'')"
proof -
  have f: "field_at evaluating_world 0 = Inr (all_fields evaluating_world ! 0)"
    by code_simp
  have g: "getStatus (all_fields evaluating_world ! 0) FLAG_ISEVALUATING \<and>
     \<not> getStatus (all_fields evaluating_world ! 0) FLAG_ISDESTRUCTING \<and>
     getDirty (all_fields evaluating_world ! 0) \<and> isConnected (all_fields evaluating_world ! 0)"
    by code_simp
  from evaluate_reentry_is_fatal[OF f] g f show ?thesis by simp
qed

subsection \<open>Touching a field\<close>

text \<open>
  Claim C9, as amended. \<open>touch\<close> starts a notification pass exactly when the
  multiplexed pointer member of the field is set: when the field has an owning container
  or has extended storage. A field with neither is inert.
\<close>

theorem touch_runs_iff_pointer_set:
  "field_at w this = Inr f \<Longrightarrow>
     touch n this w =
       (if getContainer f \<noteq> None \<or> hasExtendedStorage f then startNotify n this w else Inr w)"
  by (auto simp add: touch_def container_member_set_def getContainer_def)

theorem touch_runs_iff_pointer_set_witness:
  "field_at lone_world 0 = Inr lone_field \<and> getContainer lone_field = None \<and>
   hasExtendedStorage lone_field \<and> touch 2 0 lone_world = startNotify 2 0 lone_world"
proof -
  have f: "field_at lone_world 0 = Inr lone_field" by code_simp
  have g: "getContainer lone_field = None \<and> hasExtendedStorage lone_field" by code_simp
  from touch_runs_iff_pointer_set[OF f, of 2] g f show ?thesis by simp
qed

theorem touch_without_container_counterexample:
  "field_at lone_world 0 = Inr lone_field \<and> getContainer lone_field = None \<and>
   touch 2 0 lone_world =
     Inr (lone_world\<lparr>calls := [DBStartNotify, AuditorNotify 7 SENSOR, DBEndNotify]\<rparr>) \<and>
   touch 2 0 lone_world \<noteq> Inr lone_world"
  by code_simp

subsection \<open>Reading\<close>

text \<open>
  Claim C8. When the input is not a reference and the value parse fails, \<open>read\<close>
  returns \<open>FALSE\<close>; the field keeps its value and every flag but the default and
  the dirty flag, which are both clear: they were reset before the parse was attempted and
  are not restored.
\<close>

theorem read_failed_parse:
  assumes f: "field_at w this = Inr f" and nr: "checkISReference inp = (False, True)"
    and pf: "value_parse_fails readValue inp"
  shows "\<exists>inp' w'. read n readValue this inp w = Inr (False, inp', w') \<and>
           all_fields w' ! this =
             clearStatusBits FLAG_NEEDEVALUATION (clearStatusBits FLAG_ISDEFAULT f) \<and>
           val (all_fields w' ! this) = val f \<and>
           \<not> isDefault (all_fields w' ! this) \<and> \<not> getDirty (all_fields w' ! this)"
proof -
  have len: "this < length (all_fields w)" and fthis: "all_fields w ! this = f"
    using f by (simp_all add: field_at_def split: if_splits)
  let ?w0 = "upd_field this (setDirty False) (upd_field this (setDefault False) w)"
  have r: "\<exists>inp'. read n readValue this inp w = Inr (False, inp', ?w0)"
    using f nr pf
    by (auto simp add: read_def value_parse_fails_def read_value_def Let_def
        split: option.splits if_splits)
  have "all_fields ?w0 ! this =
          clearStatusBits FLAG_NEEDEVALUATION (clearStatusBits FLAG_ISDEFAULT f)"
    using len fthis by (simp add: setDirty_eq setDefault_eq)
  moreover have "\<not> isDefault (clearStatusBits FLAG_NEEDEVALUATION (clearStatusBits FLAG_ISDEFAULT f))"
    by (simp add: isDefault_def getStatus_clearStatusBits_other getStatus_clearStatusBits_same
        flag_defs)
  moreover have "\<not> getDirty (clearStatusBits FLAG_NEEDEVALUATION (clearStatusBits FLAG_ISDEFAULT f))"
    by (simp add: getDirty_def getStatus_clearStatusBits_same)
  ultimately show ?thesis
    using r by auto
qed

theorem read_failed_parse_witness:
  "field_at two_fields_world 0 = Inr (all_fields two_fields_world ! 0) \<and>
   checkISReference bad_input = (False, True) \<and>
   value_parse_fails (\<lambda>i. None) bad_input \<and>
   isDefault (all_fields two_fields_world ! 0) \<and>
   (\<exists>inp' w'. read 0 (\<lambda>i. None) 0 bad_input two_fields_world = Inr (False, inp', w') \<and>
      val (all_fields w' ! 0) = val (all_fields two_fields_world ! 0) \<and>
      \<not> isDefault (all_fields w' ! 0) \<and> \<not> getDirty (all_fields w' ! 0))"
proof -
  have f: "field_at two_fields_world 0 = Inr (all_fields two_fields_world ! 0)"
    by code_simp
  have nr: "checkISReference bad_input = (False, True)"
    by code_simp
  have pf: "value_parse_fails (\<lambda>i. None) bad_input"
    by code_simp
  have d: "isDefault (all_fields two_fields_world ! 0)"
    by code_simp
  from read_failed_parse[OF f nr pf, of 0] f nr pf d show ?thesis
    by blast
qed

subsection \<open>A connection without a converter\<close>

lemma extendStorageIfNecessary_observed:
  "isConnected (extendStorageIfNecessary g) = isConnected g \<and>
   getConnectedField (extendStorageIfNecessary g) = getConnectedField g \<and>
   getConnectedEngine (extendStorageIfNecessary g) = getConnectedEngine g \<and>
   getConnections (extendStorageIfNecessary g) [] = getConnections g [] \<and>
   getForwardConnections (extendStorageIfNecessary g) [] = getForwardConnections g [] \<and>
   getContainer (extendStorageIfNecessary g) = getContainer g \<and>
   typeId (extendStorageIfNecessary g) = typeId g \<and>
   val (extendStorageIfNecessary g) = val g \<and>
   hasExtendedStorage (extendStorageIfNecessary g) \<and>
   statusbits (extendStorageIfNecessary g) AND NOT FLAG_EXTSTORAGE =
     statusbits g AND NOT FLAG_EXTSTORAGE"
proof (cases "hasExtendedStorage g")
  case True
  then show ?thesis
    by (simp add: extendStorageIfNecessary_def)
next
  case False
  then have e: "hasExtendedStorage (setStatusBits FLAG_EXTSTORAGE h)" for h
    by (simp add: hasExtendedStorage_def getStatus_setStatusBits flag_defs)
  have h: "hasExtendedStorage (h\<lparr>storage := s\<rparr>) = hasExtendedStorage h" for h s
    by (simp add: hasExtendedStorage_def getStatus_def)
  from False show ?thesis
    by (simp add: extendStorageIfNecessary_def isConnected_def isConnectedFromField_def
        isConnectedFromEngine_def getConnectedField_def getConnectedEngine_def
        SOFIELD_GETCONNECTED_def getConnections_def getForwardConnections_def getContainer_def
        new_SoConnectStorage_def e h)
       (simp add: setStatusBits_def bit.conj_disj_distrib2)
qed

text \<open>
  Claim C1, as amended. When the types of the two fields differ, no converter is
  registered for them and the slave has an owning container, \<open>connectFrom\<close> returns
  \<open>FALSE\<close> and the world is as before except that both fields have had their extended
  storage allocated: the connection queries of both fields answer as before, and every
  status bit but \<open>FLAG_EXTSTORAGE\<close> is as before.
\<close>

theorem connectFrom_without_converter:
  assumes f: "field_at w this = Inr f" and m: "field_at w master = Inr m"
    and t: "typeId m \<noteq> typeId f"
    and nc: "getConverter w (typeId m) (typeId f) = badType"
    and c: "container_at w (getContainer f) = Inr cont"
  shows "\<exists>w'. connectFrom (Suc n) this master notnotify append' w = Inr (False, w') \<and>
           w' = upd_field master extendStorageIfNecessary
                  (upd_field this extendStorageIfNecessary w) \<and>
           all_fields w' ! this = extendStorageIfNecessary f \<and>
           all_fields w' ! master = extendStorageIfNecessary m \<and>
           isConnected (all_fields w' ! this) = isConnected f \<and>
           getConnections (all_fields w' ! this) [] = getConnections f [] \<and>
           getForwardConnections (all_fields w' ! master) [] = getForwardConnections m [] \<and>
           statusbits (all_fields w' ! this) AND NOT FLAG_EXTSTORAGE =
             statusbits f AND NOT FLAG_EXTSTORAGE \<and>
           statusbits (all_fields w' ! master) AND NOT FLAG_EXTSTORAGE =
             statusbits m AND NOT FLAG_EXTSTORAGE"
proof -
  have len: "this < length (all_fields w)" and fthis: "all_fields w ! this = f"
    using f by (simp_all add: field_at_def split: if_splits)
  have lenm: "master < length (all_fields w)" and mthis: "all_fields w ! master = m"
    using m by (simp_all add: field_at_def split: if_splits)
  have ne: "this \<noteq> master"
    using t fthis mthis by auto
  let ?w1 = "upd_field master extendStorageIfNecessary
               (upd_field this extendStorageIfNecessary w)"
  have f1: "all_fields ?w1 ! this = extendStorageIfNecessary f"
    using len lenm ne fthis by simp
  have m1: "all_fields ?w1 ! master = extendStorageIfNecessary m"
    using len lenm ne mthis by simp
  have c1: "container_at ?w1 (getContainer f) = Inr cont"
    using c by (auto simp add: extendStorageIfNecessary_observed container_at_def upd_field_def
        split: option.splits if_splits)
  have cc: "createConverter this (typeId m) ?w1 = Inr (None, ?w1)"
    using len lenm f1 t nc
    by (simp add: createConverter_def field_at_def extendStorageIfNecessary_observed
        getConverter_def upd_field_def Let_def)
  have "connectFrom (Suc n) this master notnotify append' w = Inr (False, ?w1)"
    using f m t
    by (simp add: f1 m1 c1 cc extendStorageIfNecessary_observed Let_def
        del: all_fields_upd_field)
  then show ?thesis
    using f1 m1 by (simp add: extendStorageIfNecessary_observed)
qed

theorem connectFrom_without_converter_witness:
  "field_at mismatch_world 0 = Inr (all_fields mismatch_world ! 0) \<and>
   field_at mismatch_world 1 = Inr (all_fields mismatch_world ! 1) \<and>
   typeId (all_fields mismatch_world ! 1) \<noteq> typeId (all_fields mismatch_world ! 0) \<and>
   getConverter mismatch_world (typeId (all_fields mismatch_world ! 1))
     (typeId (all_fields mismatch_world ! 0)) = badType \<and>
   container_at mismatch_world (getContainer (all_fields mismatch_world ! 0)) = Inr node_container \<and>
   (\<exists>w'. connectFrom 1 0 1 False False mismatch_world = Inr (False, w') \<and>
      isConnected (all_fields w' ! 0) = False \<and>
      getForwardConnections (all_fields w' ! 1) [] = (0, []))"
proof -
  have f: "field_at mismatch_world 0 = Inr (all_fields mismatch_world ! 0)" by code_simp
  have m: "field_at mismatch_world 1 = Inr (all_fields mismatch_world ! 1)" by code_simp
  have t: "typeId (all_fields mismatch_world ! 1) \<noteq> typeId (all_fields mismatch_world ! 0)"
    by code_simp
  have nc: "getConverter mismatch_world (typeId (all_fields mismatch_world ! 1))
     (typeId (all_fields mismatch_world ! 0)) = badType" by code_simp
  have c: "container_at mismatch_world (getContainer (all_fields mismatch_world ! 0))
     = Inr node_container" by code_simp
  have o: "isConnected (all_fields mismatch_world ! 0) = False \<and>
     getForwardConnections (all_fields mismatch_world ! 1) [] = (0, [])" by code_simp
  from connectFrom_without_converter[OF f m t nc c, of 0 False False] o
  have "\<exists>w'. connectFrom 1 0 1 False False mismatch_world = Inr (False, w') \<and>
      isConnected (all_fields w' ! 0) = False \<and>
      getForwardConnections (all_fields w' ! 1) [] = (0, [])"
    by auto
  with f m t nc c show ?thesis by simp
qed

theorem connectFrom_failure_changes_fields_counterexample:
  "typeId (all_fields mismatch_world ! 1) \<noteq> typeId (all_fields mismatch_world ! 0) \<and>
   getConverter mismatch_world 2 1 = badType \<and>
   (case connectFrom 5 0 1 False False mismatch_world of
      Inl e \<Rightarrow> False
    | Inr (r, w') \<Rightarrow> r = False \<and>
        all_fields w' ! 0 \<noteq> all_fields mismatch_world ! 0 \<and>
        all_fields w' ! 1 \<noteq> all_fields mismatch_world ! 1 \<and>
        \<not> hasExtendedStorage (all_fields mismatch_world ! 0) \<and>
        hasExtendedStorage (all_fields w' ! 0))"
  by code_simp

subsection \<open>Appending connections\<close>





lemma hasExt_storage_update [simp]:
  "hasExtendedStorage (g\<lparr>storage := s\<rparr>) = hasExtendedStorage g"
  by (simp add: hasExtendedStorage_def getStatus_def)












lemma nth_upd_field:
  "all_fields (upd_field q h w) ! r =
     (if r = q \<and> q < length (all_fields w) then h (all_fields w ! q) else all_fields w ! r)"
  by (cases "q < length (all_fields w)") (auto simp add: nth_list_update list_update_beyond)










subsection \<open>Disconnecting\<close>

lemma fld_le_refl: "fld_le f f"
  by (simp add: fld_le_def)

lemma getStatus_val_update [simp]: "getStatus (g\<lparr>val := v\<rparr>) c = getStatus g c"
  by (simp add: getStatus_def)

lemma getStatus_storage_update [simp]: "getStatus (g\<lparr>storage := s\<rparr>) c = getStatus g c"
  by (simp add: getStatus_def)

lemma unlinked_refl: "unlinked w w"
  by (simp add: unlinked_def)

lemma unlinked_trans: "unlinked w w1 \<Longrightarrow> unlinked w1 w2 \<Longrightarrow> unlinked w w2"
  unfolding unlinked_def by (auto intro: order_trans)

lemma sum_list_le_nth:
  "length xs = length ys \<Longrightarrow> (\<And>i. i < length xs \<Longrightarrow> g (ys ! i) \<le> (g (xs ! i) :: nat)) \<Longrightarrow>
     sum_list (map g ys) \<le> sum_list (map g xs)"
proof (induction xs ys rule: list_induct2)
  case Nil
  then show ?case by simp
next
  case (Cons x xs y ys)
  have "g y \<le> g x" using Cons.prems[of 0] by simp
  moreover have "sum_list (map g ys) \<le> sum_list (map g xs)"
    using Cons.prems[of "Suc i" for i] by (intro Cons.IH) auto
  ultimately show ?case by simp
qed

lemma unlinked_total: "unlinked w w' \<Longrightarrow> total_links w' \<le> total_links w"
  unfolding unlinked_def total_links_def
  by (intro sum_list_le_nth) (auto simp add: links_def intro: add_mono)

lemma unlinked_fields:
  assumes "length (all_fields w') = length (all_fields w)"
    and "all_containers w' = all_containers w"
    and "\<And>x. x < length (all_fields w) \<Longrightarrow> fld_le (all_fields w ! x) (all_fields w' ! x)"
  shows "unlinked w w'"
  using assms by (simp add: unlinked_def fld_le_def)

lemma unlinked_upd_field:
  assumes "\<And>g. fld_le g (h g)"
  shows "unlinked w (upd_field r h w)"
  by (rule unlinked_fields)
     (auto simp add: nth_upd_field assms fld_le_refl simp del: all_fields_upd_field,
      simp_all add: upd_field_def)

lemma unlinked_put_field:
  assumes "field_at w r = Inr f" and "fld_le f f'"
  shows "unlinked w (put_field r f' w)"
  using assms
  by (intro unlinked_fields)
     (auto simp add: put_field_def field_at_def nth_list_update fld_le_refl split: if_splits)

lemma unlinked_record_event: "unlinked w (record_event e w)"
  by (simp add: unlinked_def record_event_def)

lemma fld_le_status:
  "FLAG_EXTSTORAGE AND b = 0 \<Longrightarrow> fld_le g (setStatusBits b g) \<and> fld_le g (clearStatusBits b g)"
  by (simp add: fld_le_def getContainer_def hasExtendedStorage_def getStatus_setStatusBits
      getStatus_clearStatusBits_other and.commute)

lemma fld_le_val: "fld_le g (g\<lparr>val := v\<rparr>)"
  by (simp add: fld_le_def getContainer_def hasExtendedStorage_def)

lemma fld_le_trans: "fld_le f g \<Longrightarrow> fld_le g h \<Longrightarrow> fld_le f h"
  by (simp add: fld_le_def)

lemma evaluateConnection_unlinked:
  assumes "evaluateConnection a w = Inr w'"
  shows "unlinked w w'"
proof -
  from assms obtain f where f: "field_at w a = Inr f"
    by (auto simp add: evaluateConnection_def split: sum.splits)
  have c0: "fld_le f (snd (enableNotify on2 (copyFrom m (snd (enableNotify on1 f)))))"
    for on1 on2 m
    by (simp add: enableNotify_def changeStatusBits_snd copyFrom_def Let_def fld_le_def
        getContainer_def hasExtendedStorage_def getStatus_setStatusBits
        getStatus_clearStatusBits_other flag_defs)
  have c: "fld_le f (snd (enableNotify on2 (copyFrom m f1)))"
    if "enableNotify on1 f = (o1, f1)" for on1 on2 m o1 f1
    using c0[of on2 m on1] that by simp
  from assms f show ?thesis
    by (auto simp add: evaluateConnection_def Let_def unlinked_refl unlinked_record_event
        intro!: unlinked_put_field[OF f] elim: c
        split: sum.splits if_splits option.splits prod.splits)
qed

lemma evaluate_unlinked:
  assumes "evaluate a w = Inr w'"
  shows "unlinked w w'"
proof (cases "w' = w")
  case True
  then show ?thesis by (simp add: unlinked_refl)
next
  case False
  with assms obtain w2 where
    e: "evaluateConnection a (upd_field a (setStatusBits FLAG_ISEVALUATING) w) = Inr w2" and
    w': "w' = upd_field a (setDirty False) (upd_field a (clearStatusBits FLAG_ISEVALUATING) w2)"
    by (auto simp add: evaluate_def split: sum.splits if_splits)
  have 1: "unlinked w (upd_field a (setStatusBits FLAG_ISEVALUATING) w)"
    by (rule unlinked_upd_field) (simp add: fld_le_status flag_defs)
  have 2: "unlinked w2 (upd_field a (clearStatusBits FLAG_ISEVALUATING) w2)"
    by (rule unlinked_upd_field) (simp add: fld_le_status flag_defs)
  have 3: "unlinked (upd_field a (clearStatusBits FLAG_ISEVALUATING) w2) w'"
    unfolding w' by (rule unlinked_upd_field) (simp add: setDirty_eq fld_le_status flag_defs)
  from 1 evaluateConnection_unlinked[OF e] 2 3 show ?thesis
    by (blast intro: unlinked_trans)
qed

lemma with_storage_unlinked:
  assumes "with_storage r g w = Inr w'"
    and "\<And>s s'. g s = Inr s' \<Longrightarrow> storage_container s' = storage_container s \<and>
           length (masterfields s') \<le> length (masterfields s) \<and>
           length (masterengineouts s') \<le> length (masterengineouts s)"
  shows "unlinked w w'"
proof -
  from assms(1) obtain f s' where f: "field_at w r = Inr f" and h: "hasExtendedStorage f"
    and g: "g (storage f) = Inr s'" and w': "w' = put_field r (f\<lparr>storage := s'\<rparr>) w"
    by (auto simp add: with_storage_def split: sum.splits if_splits)
  have len: "r < length (all_fields w)" and fr: "all_fields w ! r = f"
    using f by (simp_all add: field_at_def split: if_splits)
  show ?thesis
    unfolding unlinked_def w'
    using assms(2)[OF g] len fr h
    by (auto simp add: put_field_def nth_list_update getContainer_def hasExtendedStorage_def)
qed

lemma sum_list_update_less:
  "r < length xs \<Longrightarrow> g y < (g (xs ! r) :: nat) \<Longrightarrow>
     sum_list (map g (xs[r := y])) < sum_list (map g xs)"
proof (induction xs arbitrary: r)
  case Nil
  then show ?case by simp
next
  case (Cons x xs)
  then show ?case by (cases r) auto
qed

lemma length_remove1_less: "x \<in> set xs \<Longrightarrow> length (remove1 x xs) < length xs"
  by (simp add: length_remove1) (cases xs, auto)

lemma with_storage_remove_masterfield:
  assumes "with_storage r (remove_masterfield m) w = Inr w'"
  shows "unlinked w w' \<and> total_links w' < total_links w"
proof -
  from assms obtain f s' where f: "field_at w r = Inr f" and h: "hasExtendedStorage f"
    and g: "remove_masterfield m (storage f) = Inr s'"
    and w': "w' = put_field r (f\<lparr>storage := s'\<rparr>) w"
    by (auto simp add: with_storage_def split: sum.splits if_splits)
  have len: "r < length (all_fields w)" and fr: "all_fields w ! r = f"
    using f by (simp_all add: field_at_def split: if_splits)
  from g have "links (f\<lparr>storage := s'\<rparr>) < links f"
    by (auto simp add: remove_masterfield_def removeItem_def links_def length_remove1_less
        split: if_splits)
  then have "total_links w' < total_links w"
    unfolding total_links_def w' put_field_def using len fr
    by (simp add: sum_list_update_less)
  moreover have "unlinked w w'"
    using assms
    by (rule with_storage_unlinked)
       (auto simp add: remove_masterfield_def removeItem_def length_remove1 split: if_splits)
  ultimately show ?thesis by simp
qed

lemma with_storage_remove_masterengineout:
  assumes "with_storage r (remove_masterengineout m) w = Inr w'"
  shows "unlinked w w' \<and> total_links w' < total_links w"
proof -
  from assms obtain f s' where f: "field_at w r = Inr f" and h: "hasExtendedStorage f"
    and g: "remove_masterengineout m (storage f) = Inr s'"
    and w': "w' = put_field r (f\<lparr>storage := s'\<rparr>) w"
    by (auto simp add: with_storage_def split: sum.splits if_splits)
  have len: "r < length (all_fields w)" and fr: "all_fields w ! r = f"
    using f by (simp_all add: field_at_def split: if_splits)
  from g have "links (f\<lparr>storage := s'\<rparr>) < links f"
    by (auto simp add: remove_masterengineout_def removeItem_def links_def length_remove1_less
        split: if_splits)
  then have "total_links w' < total_links w"
    unfolding total_links_def w' put_field_def using len fr
    by (simp add: sum_list_update_less)
  moreover have "unlinked w w'"
    using assms
    by (rule with_storage_unlinked)
       (auto simp add: remove_masterengineout_def removeItem_def length_remove1 split: if_splits)
  ultimately show ?thesis by simp
qed

lemma removeConnection_unlinked: "removeConnection p x w = Inr w' \<Longrightarrow> unlinked w w'"
  by (auto simp add: removeConnection_def put_output_def unlinked_def split: sum.splits)

lemma release_converter_unlinked:
  assumes "release_converter a item conv cout w = Inr w'"
  shows "unlinked w w'"
proof -
  from assms obtain w1 w2 where 1: "removeConnection cout a w = Inr w1"
    and 2: "with_storage a (removeConverter item) w1 = Inr w2"
    and 3: "w' = record_event (Unref conv) w2"
    by (auto simp add: release_converter_def split: sum.splits)
  have "unlinked w1 w2"
    using 2 by (rule with_storage_unlinked) (auto simp add: removeConverter_def split: if_splits)
  with removeConnection_unlinked[OF 1] 3 show ?thesis
    by (blast intro: unlinked_trans unlinked_record_event)
qed

lemma removeAuditor_fld_le: "removeAuditor a t f = Inr f' \<Longrightarrow> fld_le f f'"
  by (auto simp add: removeAuditor_def connectionStatusChanged_def fld_le_def getContainer_def
      hasExtendedStorage_def split: if_splits)

lemma remove_slave_unlinked: "with_storage r (remove_slave a) w = Inr w' \<Longrightarrow> unlinked w w'"
  by (rule with_storage_unlinked) (auto simp add: remove_slave_def split: sum.splits)

lemma disconnectField_unlinked:
  "disconnectField n a m w = Inr w' \<Longrightarrow> unlinked w w' \<and> total_links w' < total_links w"
proof (induction n arbitrary: a m w w')
  case 0
  then show ?case by simp
next
  case (Suc n)
  from Suc.prems obtain w1 f cont w2 w3 where
    e: "evaluate a w = Inr w1" and
    s: "(if \<not> isConverter cont then with_storage m (remove_slave a) w1 else Inr w1) = Inr w2" and
    r: "with_storage a (remove_masterfield m) w2 = Inr w3" and
    rest: "(case findConverter (storage (all_fields w3 ! a)) (FieldItem m) of
             Some conv \<Rightarrow>
               (case converter_at w3 conv of
                  Inl e \<Rightarrow> Inl e
                | Inr (converterinput, converteroutput) \<Rightarrow>
                    (case disconnectField n converterinput m w3 of
                       Inl e \<Rightarrow> Inl e
                     | Inr w4 \<Rightarrow>
                         release_converter a (FieldItem m) conv converteroutput w4))
           | None \<Rightarrow>
               (case field_at w3 m of
                  Inl e \<Rightarrow> Inl e
                | Inr mm \<Rightarrow>
                    (case removeAuditor a FIELD mm of
                       Inl e \<Rightarrow> Inl e
                     | Inr mm' \<Rightarrow> Inr (put_field m mm' w3)))) = Inr w'"
    by (auto split: sum.splits)
  have u1: "unlinked w w1" using e by (rule evaluate_unlinked)
  have u2: "unlinked w1 w2"
    using s by (auto simp add: unlinked_refl remove_slave_unlinked split: if_splits)
  from with_storage_remove_masterfield[OF r] have u3: "unlinked w2 w3"
    and l3: "total_links w3 < total_links w2" by simp_all
  have u03: "unlinked w w3" using u1 u2 u3 by (blast intro: unlinked_trans)
  have l03: "total_links w3 < total_links w"
    using l3 unlinked_total[OF u1] unlinked_total[OF u2] by simp
  have "unlinked w3 w'"
  proof (cases "findConverter (storage (all_fields w3 ! a)) (FieldItem m)")
    case None
    with rest obtain mm mm' where "field_at w3 m = Inr mm" "removeAuditor a FIELD mm = Inr mm'"
      "w' = put_field m mm' w3"
      by (auto split: sum.splits)
    then show ?thesis
      by (auto intro: unlinked_put_field removeAuditor_fld_le)
  next
    case (Some conv)
    with rest obtain cin cout w4 where "disconnectField n cin m w3 = Inr w4"
      "release_converter a (FieldItem m) conv cout w4 = Inr w'"
      by (auto split: sum.splits)
    with Suc.IH[of cin m w3 w4] show ?thesis
      by (blast intro: unlinked_trans release_converter_unlinked)
  qed
  with u03 l03 show ?case
    using unlinked_total[of w3 w'] by (auto intro: unlinked_trans)
qed

lemma disconnectEngineOutput_unlinked:
  "disconnectEngineOutput n a m w = Inr w' \<Longrightarrow> unlinked w w' \<and> total_links w' < total_links w"
proof (induction n arbitrary: a m w w')
  case 0
  then show ?case by simp
next
  case (Suc n)
  from Suc.prems obtain f cont where f: "field_at w a = Inr f"
    and c: "container_at w (getContainer f) = Inr cont"
    by (auto split: sum.splits)
  show ?case
  proof (cases "converter cont")
    case (Some io)
    with Suc.prems f c obtain fl0 where "disconnectEngineOutput n fl0 m w = Inr w'"
      by (auto split: sum.splits list.splits prod.splits)
    then show ?thesis by (rule Suc.IH)
  next
    case None
    with Suc.prems f c obtain out w1 w2 where
      o: "output_at w m = Inr out" and
      e: "(if enabled out then evaluate a w else Inr w) = Inr w1" and
      r: "with_storage a (remove_masterengineout m) w1 = Inr w2" and
      rest: "(case findConverter (storage (all_fields w2 ! a)) (OutputItem m) of
             Some conv \<Rightarrow>
               (case converter_at w2 conv of
                  Inl e \<Rightarrow> Inl e
                | Inr (converterinput, converteroutput) \<Rightarrow>
                    (case with_storage converterinput (remove_masterengineout m) w2 of
                       Inl e \<Rightarrow> Inl e
                     | Inr w3 \<Rightarrow>
                         (case removeConnection m converterinput w3 of
                            Inl e \<Rightarrow> Inl e
                          | Inr w4 \<Rightarrow>
                              release_converter a (OutputItem m) conv converteroutput w4)))
           | None \<Rightarrow> removeConnection m a w2) = Inr w'"
      by (auto split: sum.splits)
    have u1: "unlinked w w1"
      using e by (auto simp add: unlinked_refl evaluate_unlinked split: if_splits)
    from with_storage_remove_masterengineout[OF r] have u2: "unlinked w1 w2"
      and l2: "total_links w2 < total_links w1" by simp_all
    have "unlinked w2 w'"
    proof (cases "findConverter (storage (all_fields w2 ! a)) (OutputItem m)")
      case None
      with rest show ?thesis by (simp add: removeConnection_unlinked)
    next
      case (Some conv)
      with rest obtain cin cout w3 w4 where
        "with_storage cin (remove_masterengineout m) w2 = Inr w3"
        "removeConnection m cin w3 = Inr w4"
        "release_converter a (OutputItem m) conv cout w4 = Inr w'"
        by (auto split: sum.splits)
      then show ?thesis
        using with_storage_remove_masterengineout[of cin m w2 w3]
        by (blast intro: unlinked_trans release_converter_unlinked removeConnection_unlinked)
    qed
    with u1 u2 l2 show ?thesis
      using unlinked_total[OF u1] unlinked_total[of w2 w'] by (auto intro: unlinked_trans)
  qed
qed

lemma disconnect_masterfields_unlinked:
  "disconnect_masterfields n this w = Inr w' \<Longrightarrow>
     unlinked w w' \<and> \<not> isConnectedFromField (all_fields w' ! this)"
proof (induction n arbitrary: w)
  case 0
  then show ?case by simp
next
  case (Suc n)
  from Suc.prems obtain f where f: "field_at w this = Inr f"
    by (auto split: sum.splits)
  show ?case
  proof (cases "isConnectedFromField f")
    case False
    with Suc.prems f show ?thesis
      by (auto simp add: unlinked_refl field_at_def split: if_splits)
  next
    case True
    with Suc.prems f obtain w1 where
      1: "disconnectField (Suc n) this (masterfields (storage f) ! 0) w = Inr w1" and
      2: "disconnect_masterfields n this w1 = Inr w'"
      by (auto split: sum.splits)
    from disconnectField_unlinked[OF 1] Suc.IH[OF 2] show ?thesis
      by (blast intro: unlinked_trans)
  qed
qed

lemma disconnect_masterengineouts_unlinked:
  "disconnect_masterengineouts n this w = Inr w' \<Longrightarrow>
     unlinked w w' \<and> \<not> isConnectedFromEngine (all_fields w' ! this)"
proof (induction n arbitrary: w)
  case 0
  then show ?case by simp
next
  case (Suc n)
  from Suc.prems obtain f where f: "field_at w this = Inr f"
    by (auto split: sum.splits)
  show ?case
  proof (cases "isConnectedFromEngine f")
    case False
    with Suc.prems f show ?thesis
      by (auto simp add: unlinked_refl field_at_def split: if_splits)
  next
    case True
    with Suc.prems f obtain w1 where
      1: "disconnectEngineOutput (Suc n) this (masterengineouts (storage f) ! 0) w = Inr w1" and
      2: "disconnect_masterengineouts n this w1 = Inr w'"
      by (auto split: sum.splits)
    from disconnectEngineOutput_unlinked[OF 1] Suc.IH[OF 2] show ?thesis
      by (blast intro: unlinked_trans)
  qed
qed

lemma unlinked_not_connected:
  assumes "unlinked w w'" and "x < length (all_fields w)"
    and "\<not> isConnectedFromField (all_fields w ! x)"
  shows "\<not> isConnectedFromField (all_fields w' ! x)"
  using assms by (auto simp add: unlinked_def isConnectedFromField_def)

lemma disconnect_loops_post:
  assumes 1: "disconnect_masterfields n this w = Inr w1"
    and 2: "disconnect_masterengineouts n this w1 = Inr w2"
  shows "field_at w2 this = Inr (all_fields w2 ! this) \<and> \<not> isConnected (all_fields w2 ! this) \<and>
         unlinked w w2"
proof -
  from 2 obtain k where n: "n = Suc k" by (cases n) auto
  from 2 n have l1: "this < length (all_fields w1)"
    by (auto simp add: field_at_def split: sum.splits if_splits)
  from disconnect_masterfields_unlinked[OF 1] have u1: "unlinked w w1"
    and c1: "\<not> isConnectedFromField (all_fields w1 ! this)" by simp_all
  from disconnect_masterengineouts_unlinked[OF 2] have u2: "unlinked w1 w2"
    and c2: "\<not> isConnectedFromEngine (all_fields w2 ! this)" by simp_all
  from unlinked_not_connected[OF u2 l1 c1] c2 have "\<not> isConnected (all_fields w2 ! this)"
    by (simp add: isConnected_def)
  moreover have "this < length (all_fields w2)"
    using u2 l1 by (simp add: unlinked_def)
  ultimately show ?thesis
    using u1 u2 by (auto simp add: field_at_def intro: unlinked_trans)
qed

lemma bind_oof:
  "(case r of Inl e \<Rightarrow> Inl e | Inr x \<Rightarrow> k x) = Inl OutOfFuel \<Longrightarrow>
     r = Inl OutOfFuel \<or> (\<exists>x. r = Inr x \<and> k x = Inl OutOfFuel)"
  by (cases r) auto

lemma field_at_not_oof [simp]: "field_at w r \<noteq> Inl OutOfFuel"
  by (simp add: field_at_def)

lemma output_at_not_oof [simp]: "output_at w r \<noteq> Inl OutOfFuel"
  by (simp add: output_at_def)

lemma container_at_not_oof [simp]: "container_at w r \<noteq> Inl OutOfFuel"
  by (simp add: container_at_def split: option.splits)

lemma converter_at_not_oof [simp]: "converter_at w r \<noteq> Inl OutOfFuel"
  by (auto simp add: converter_at_def dest!: bind_oof split: option.splits)

lemma removeItem_not_oof [simp]: "removeItem x xs \<noteq> Inl OutOfFuel"
  by (simp add: removeItem_def)

lemma with_storage_not_oof:
  "(\<And>s. g s \<noteq> Inl OutOfFuel) \<Longrightarrow> with_storage r g w \<noteq> Inl OutOfFuel"
  by (auto simp add: with_storage_def dest!: bind_oof split: if_splits)

lemma remove_not_oof [simp]:
  "with_storage r (remove_slave a) w \<noteq> Inl OutOfFuel"
  "with_storage r (remove_masterfield a) w \<noteq> Inl OutOfFuel"
  "with_storage r (remove_masterengineout a) w \<noteq> Inl OutOfFuel"
  "with_storage r (removeConverter item) w \<noteq> Inl OutOfFuel"
  by (rule with_storage_not_oof;
      auto simp add: remove_slave_def remove_masterfield_def remove_masterengineout_def
        removeConverter_def dest!: bind_oof)+

lemma removeConnection_not_oof [simp]: "removeConnection p x w \<noteq> Inl OutOfFuel"
  by (auto simp add: removeConnection_def dest!: bind_oof)

lemma release_converter_not_oof [simp]:
  "release_converter a item conv cout w \<noteq> Inl OutOfFuel"
  by (auto simp add: release_converter_def dest!: bind_oof)

lemma removeAuditor_not_oof [simp]: "removeAuditor a t f \<noteq> Inl OutOfFuel"
  by (simp add: removeAuditor_def)

lemma evaluateConnection_not_oof [simp]: "evaluateConnection a w \<noteq> Inl OutOfFuel"
  by (auto simp add: evaluateConnection_def Let_def dest!: bind_oof
      split: if_splits option.splits prod.splits)

lemma evaluate_not_oof [simp]: "evaluate a w \<noteq> Inl OutOfFuel"
  by (auto simp add: evaluate_def dest!: bind_oof split: if_splits)

lemma disconnectField_fuel:
  "total_links w < n \<Longrightarrow> disconnectField n a m w \<noteq> Inl OutOfFuel"
proof (induction n arbitrary: a m w)
  case 0
  then show ?case by simp
next
  case (Suc n)
  show ?case
  proof
    assume oof: "disconnectField (Suc n) a m w = Inl OutOfFuel"
    then obtain w1 f cont w2 w3 where
      e: "evaluate a w = Inr w1" and
      s: "(if \<not> isConverter cont then with_storage m (remove_slave a) w1 else Inr w1) = Inr w2" and
      r: "with_storage a (remove_masterfield m) w2 = Inr w3" and
      rest: "(case findConverter (storage (all_fields w3 ! a)) (FieldItem m) of
             Some conv \<Rightarrow>
               (case converter_at w3 conv of
                  Inl e \<Rightarrow> Inl e
                | Inr (converterinput, converteroutput) \<Rightarrow>
                    (case disconnectField n converterinput m w3 of
                       Inl e \<Rightarrow> Inl e
                     | Inr w4 \<Rightarrow>
                         release_converter a (FieldItem m) conv converteroutput w4))
           | None \<Rightarrow>
               (case field_at w3 m of
                  Inl e \<Rightarrow> Inl e
                | Inr mm \<Rightarrow>
                    (case removeAuditor a FIELD mm of
                       Inl e \<Rightarrow> Inl e
                     | Inr mm' \<Rightarrow> Inr (put_field m mm' w3)))) = Inl OutOfFuel"
      by (auto dest!: bind_oof split: if_splits)
    have u1: "unlinked w w1" using e by (rule evaluate_unlinked)
    have u2: "unlinked w1 w2"
      using s by (auto simp add: unlinked_refl remove_slave_unlinked split: if_splits)
    from with_storage_remove_masterfield[OF r] have l3: "total_links w3 < total_links w2"
      by simp
    have l03: "total_links w3 < n"
      using l3 unlinked_total[OF u1] unlinked_total[OF u2] Suc.prems by simp
    from rest obtain cin where "disconnectField n cin m w3 = Inl OutOfFuel"
      by (auto dest!: bind_oof split: option.splits prod.splits)
    with Suc.IH[OF l03] show False by simp
  qed
qed

lemma disconnect_masterfields_fuel:
  "total_links w < n \<Longrightarrow> disconnect_masterfields n this w \<noteq> Inl OutOfFuel"
proof (induction n arbitrary: w)
  case 0
  then show ?case by simp
next
  case (Suc n)
  show ?case
  proof
    assume a: "disconnect_masterfields (Suc n) this w = Inl OutOfFuel"
    then obtain f where f: "field_at w this = Inr f" and c: "isConnectedFromField f"
      by (auto dest!: bind_oof split: if_splits simp del: disconnectField.simps)
    let ?m = "masterfields (storage f) ! 0"
    have nf: "disconnectField (Suc n) this ?m w \<noteq> Inl OutOfFuel"
      using Suc.prems by (rule disconnectField_fuel)
    from a f c nf obtain w1 where
      1: "disconnectField (Suc n) this ?m w = Inr w1" and
      2: "disconnect_masterfields n this w1 = Inl OutOfFuel"
      by (cases "disconnectField (Suc n) this ?m w")
         (auto simp del: disconnectField.simps)
    from disconnectField_unlinked[OF 1] Suc.prems have "total_links w1 < n" by simp
    with Suc.IH 2 show False by simp
  qed
qed

lemma unlinked_owner:
  assumes "unlinked w w'" and "owner_not_converter w x"
  shows "owner_not_converter w' x"
proof -
  from assms(2) have l: "x < length (all_fields w)"
    by (auto simp add: owner_not_converter_def field_at_def split: if_splits)
  with assms show ?thesis
    by (auto simp add: owner_not_converter_def unlinked_def field_at_def container_at_def
        split: sum.splits option.splits if_splits)
qed

lemma disconnectEngineOutput_fuel:
  assumes "owner_not_converter w a"
  shows "disconnectEngineOutput (Suc n) a m w \<noteq> Inl OutOfFuel"
proof -
  from assms obtain f cont where f: "field_at w a = Inr f"
    and c: "container_at w (getContainer f) = Inr cont" and nc0: "\<not> isConverter cont"
    by (auto simp add: owner_not_converter_def split: sum.splits)
  from nc0 have nc: "converter cont = None"
    by (cases "converter cont") (auto simp add: isConverter_def)
  from f c nc show ?thesis
    by (auto dest!: bind_oof split: if_splits option.splits prod.splits)
qed

lemma disconnect_masterengineouts_fuel:
  "total_links w < n \<Longrightarrow> owner_not_converter w this \<Longrightarrow>
     disconnect_masterengineouts n this w \<noteq> Inl OutOfFuel"
proof (induction n arbitrary: w)
  case 0
  then show ?case by simp
next
  case (Suc n)
  show ?case
  proof
    assume a: "disconnect_masterengineouts (Suc n) this w = Inl OutOfFuel"
    then obtain f where f: "field_at w this = Inr f" and c: "isConnectedFromEngine f"
      by (auto dest!: bind_oof split: if_splits simp del: disconnectEngineOutput.simps)
    let ?m = "masterengineouts (storage f) ! 0"
    have nf: "disconnectEngineOutput (Suc n) this ?m w \<noteq> Inl OutOfFuel"
      using Suc.prems(2) by (rule disconnectEngineOutput_fuel)
    from a f c nf obtain w1 where
      1: "disconnectEngineOutput (Suc n) this ?m w = Inr w1" and
      2: "disconnect_masterengineouts n this w1 = Inl OutOfFuel"
      by (cases "disconnectEngineOutput (Suc n) this ?m w")
         (auto simp del: disconnectEngineOutput.simps)
    from disconnectEngineOutput_unlinked[OF 1] Suc.prems have "total_links w1 < n"
      and "owner_not_converter w1 this"
      by (auto intro: unlinked_owner)
    with Suc.IH 2 show False by simp
  qed
qed

lemma bind_err:
  "(case r of Inl e \<Rightarrow> Inl e | Inr x \<Rightarrow> k x) = Inl z \<Longrightarrow>
     r = Inl z \<or> (\<exists>x. r = Inr x \<and> k x = Inl z)"
  by (cases r) auto

lemma field_at_error: "field_at w r = Inl z \<Longrightarrow> z \<in> base_errors"
  by (auto simp add: field_at_def base_errors_def split: if_splits)

lemma output_at_error: "output_at w r = Inl z \<Longrightarrow> z \<in> base_errors"
  by (auto simp add: output_at_def base_errors_def split: if_splits)

lemma container_at_error: "container_at w r = Inl z \<Longrightarrow> z \<in> base_errors"
  by (auto simp add: container_at_def base_errors_def split: if_splits option.splits)

lemma converter_at_error: "converter_at w r = Inl z \<Longrightarrow> z \<in> base_errors"
  by (auto simp add: converter_at_def base_errors_def dest!: bind_err container_at_error
      split: option.splits)

lemma removeItem_error: "removeItem x xs = Inl z \<Longrightarrow> z \<in> base_errors"
  by (auto simp add: removeItem_def base_errors_def split: if_splits)

lemma with_storage_error:
  "with_storage r g w = Inl z \<Longrightarrow> (\<And>s. g s = Inl z \<Longrightarrow> z \<in> base_errors) \<Longrightarrow>
     z \<in> base_errors"
  by (auto simp add: with_storage_def dest!: bind_err field_at_error split: if_splits)
     (simp add: base_errors_def)

lemma remove_error:
  "with_storage r (remove_slave a) w = Inl z \<Longrightarrow> z \<in> base_errors"
  "with_storage r (remove_masterfield a) w = Inl z \<Longrightarrow> z \<in> base_errors"
  "with_storage r (remove_masterengineout a) w = Inl z \<Longrightarrow> z \<in> base_errors"
  "with_storage r (removeConverter item) w = Inl z \<Longrightarrow> z \<in> base_errors"
  by (erule with_storage_error;
      auto simp add: remove_slave_def remove_masterfield_def remove_masterengineout_def
        removeConverter_def base_errors_def dest!: bind_err removeItem_error split: if_splits)+

lemma removeConnection_error: "removeConnection p x w = Inl z \<Longrightarrow> z \<in> base_errors"
  by (auto simp add: removeConnection_def dest!: bind_err output_at_error removeItem_error)

lemma release_converter_error:
  "release_converter a item conv cout w = Inl z \<Longrightarrow> z \<in> base_errors"
  by (auto simp add: release_converter_def dest!: bind_err removeConnection_error remove_error)

lemma removeAuditor_error: "removeAuditor a t f = Inl z \<Longrightarrow> z \<in> base_errors"
  by (auto simp add: removeAuditor_def base_errors_def split: if_splits)

lemma evaluateConnection_error: "evaluateConnection a w = Inl z \<Longrightarrow> z \<in> base_errors"
  by (auto simp add: evaluateConnection_def Let_def
      dest!: bind_err field_at_error output_at_error
      split: if_splits option.splits prod.splits)
     (simp_all add: base_errors_def)

lemma evaluate_error: "evaluate a w = Inl z \<Longrightarrow> z \<in> base_errors"
  by (auto simp add: evaluate_def dest!: bind_err field_at_error evaluateConnection_error
      split: if_splits)
     (simp_all add: base_errors_def)

lemma disconnectField_error:
  "disconnectField n a m w = Inl z \<Longrightarrow> z = OutOfFuel \<or> z \<in> base_errors"
proof (induction n arbitrary: a m w)
  case 0
  then show ?case by simp
next
  case (Suc n)
  from Suc.prems Suc.IH show ?case
    by (auto dest!: bind_err evaluate_error field_at_error container_at_error remove_error
        converter_at_error release_converter_error removeAuditor_error
        split: if_splits option.splits prod.splits)
qed

lemma disconnectEngineOutput_error:
  "disconnectEngineOutput n a m w = Inl z \<Longrightarrow> z = OutOfFuel \<or> z \<in> base_errors"
proof (induction n arbitrary: a m w)
  case 0
  then show ?case by simp
next
  case (Suc n)
  from Suc.prems Suc.IH show ?case
    by (auto dest!: bind_err evaluate_error field_at_error container_at_error remove_error
        converter_at_error release_converter_error removeConnection_error output_at_error
        split: if_splits option.splits prod.splits list.splits)
       (simp_all add: base_errors_def)
qed

lemma disconnect_masterfields_error:
  "disconnect_masterfields n this w = Inl z \<Longrightarrow> z = OutOfFuel \<or> z \<in> base_errors"
proof (induction n arbitrary: w)
  case 0
  then show ?case by simp
next
  case (Suc n)
  from Suc.prems Suc.IH show ?case
    by (auto dest!: bind_err field_at_error disconnectField_error split: if_splits
        simp del: disconnectField.simps)
qed

lemma disconnect_masterengineouts_error:
  "disconnect_masterengineouts n this w = Inl z \<Longrightarrow> z = OutOfFuel \<or> z \<in> base_errors"
proof (induction n arbitrary: w)
  case 0
  then show ?case by simp
next
  case (Suc n)
  from Suc.prems Suc.IH show ?case
    by (auto dest!: bind_err field_at_error disconnectEngineOutput_error split: if_splits
        simp del: disconnectEngineOutput.simps)
qed

text \<open>
  Claim C3. Whenever the no-argument \<open>disconnect\<close> returns, the field is not
  connected, neither from a field nor from an engine output: each loop leaves only when
  its list is empty, and the second loop adds no master field. The assertion
  \<open>isConnected() == FALSE\<close> at its end never fails. For a field whose owning container is
  not a converter adapter the call terminates: a recursion budget above the number of
  master links of the world is never exhausted.
\<close>

theorem disconnect_severs_all:
  "(\<forall>w'. disconnect n this w = Inr w' \<longrightarrow>
      field_at w' this = Inr (all_fields w' ! this) \<and> \<not> isConnected (all_fields w' ! this)) \<and>
   disconnect n this w \<noteq> Inl (AssertionFailed ''this->isConnected() == FALSE'') \<and>
   (owner_not_converter w this \<longrightarrow>
      (\<forall>m. total_links w < m \<longrightarrow> disconnect m this w \<noteq> Inl OutOfFuel))"
proof (intro conjI allI impI)
  fix w' assume r: "disconnect n this w = Inr w'"
  then obtain w1 where 1: "disconnect_masterfields n this w = Inr w1"
    and 2: "disconnect_masterengineouts n this w1 = Inr w'"
    by (auto simp add: disconnect_def split: sum.splits if_splits)
  from disconnect_loops_post[OF 1 2]
  show "field_at w' this = Inr (all_fields w' ! this)" "\<not> isConnected (all_fields w' ! this)"
    by simp_all
next
  show "disconnect n this w \<noteq> Inl (AssertionFailed ''this->isConnected() == FALSE'')"
  proof
    assume a: "disconnect n this w = Inl (AssertionFailed ''this->isConnected() == FALSE'')"
    show False
    proof (cases "disconnect_masterfields n this w")
      case (Inl e)
      with a have "disconnect_masterfields n this w =
          Inl (AssertionFailed ''this->isConnected() == FALSE'')"
        by (simp add: disconnect_def)
      from disconnect_masterfields_error[OF this] show False
        by (simp add: base_errors_def)
    next
      case (Inr w1)
      note 1 = this
      show False
      proof (cases "disconnect_masterengineouts n this w1")
        case (Inl e)
        with a 1 have "disconnect_masterengineouts n this w1 =
            Inl (AssertionFailed ''this->isConnected() == FALSE'')"
          by (simp add: disconnect_def)
        from disconnect_masterengineouts_error[OF this] show False
          by (simp add: base_errors_def)
      next
        case (Inr w2)
        from disconnect_loops_post[OF 1 Inr] a 1 Inr show False
          by (simp add: disconnect_def)
      qed
    qed
  qed
next
  fix m assume o: "owner_not_converter w this" and t: "total_links w < m"
  show "disconnect m this w \<noteq> Inl OutOfFuel"
  proof
    assume "disconnect m this w = Inl OutOfFuel"
    with disconnect_masterfields_fuel[OF t] obtain w1 where
      1: "disconnect_masterfields m this w = Inr w1" and
      2: "(case disconnect_masterengineouts m this w1 of
             Inl e \<Rightarrow> Inl e
           | Inr w2 \<Rightarrow>
               (case field_at w2 this of
                  Inl e \<Rightarrow> Inl e
                | Inr f \<Rightarrow>
                    if isConnected f = False then Inr w2
                    else Inl (AssertionFailed ''this->isConnected() == FALSE''))) = Inl OutOfFuel"
      by (auto simp add: disconnect_def dest!: bind_oof)
    from disconnect_masterfields_unlinked[OF 1] have u: "unlinked w w1" by simp
    from unlinked_total[OF u] t have "total_links w1 < m" by simp
    from disconnect_masterengineouts_fuel[OF this unlinked_owner[OF u o]] 2
    show False
      by (auto dest!: bind_oof split: if_splits)
  qed
qed

theorem disconnect_severs_all_witness:
  "owner_not_converter both_masters_world 0 \<and>
   isConnectedFromField (all_fields both_masters_world ! 0) \<and>
   isConnectedFromEngine (all_fields both_masters_world ! 0) \<and>
   total_links both_masters_world < 3 \<and>
   disconnect 3 0 both_masters_world \<noteq> Inl OutOfFuel \<and>
   (case disconnect 3 0 both_masters_world of
      Inl e \<Rightarrow> False
    | Inr w' \<Rightarrow> \<not> isConnected (all_fields w' ! 0))"
proof -
  have o: "owner_not_converter both_masters_world 0" by code_simp
  have c: "isConnectedFromField (all_fields both_masters_world ! 0) \<and>
     isConnectedFromEngine (all_fields both_masters_world ! 0)" by code_simp
  have t: "total_links both_masters_world < 3" by code_simp
  have "\<not> isl (disconnect 3 0 both_masters_world)" by code_simp
  then obtain w' where r: "disconnect 3 0 both_masters_world = Inr w'"
    by (cases "disconnect 3 0 both_masters_world") auto
  from disconnect_severs_all[of 3 0 both_masters_world] r o t
  have "\<not> isConnected (all_fields w' ! 0) \<and> disconnect 3 0 both_masters_world \<noteq> Inl OutOfFuel"
    by blast
  with o c t r show ?thesis by simp
qed

end
